theory Spec2Isabelle
  imports Complex_Main "HOL-Library.Multiset"
begin

section \<open>The Stroop treadmill test (src/app.js)\<close>

text \<open>
  A shallow embedding of the trial engine of \<open>src/app.js\<close>: the helpers
  (\<open>shuffle\<close>, \<open>median\<close>, \<open>mean\<close>, \<open>toCSV\<close>), the trial generator, the flow
  functions that read and write the \<open>state\<close> object, and the handlers of the page.

  Conventions.
  \<^item> A JavaScript number that may be \<open>NaN\<close> is an \<open>option\<close>: \<open>None\<close> is \<open>NaN\<close>.
    \<open>parseInt\<close> yields an integer or \<open>NaN\<close>, \<open>parseFloat\<close> a real or \<open>NaN\<close>; a comparison with
    \<open>NaN\<close> is false. The infinities are left out.
  \<^item> \<open>Math.random()\<close> is read from a sequence \<open>rnd\<close>; the number of calls made so far is
    threaded through every function that draws.
  \<^item> \<open>performance.now()\<close> and \<open>nowISO()\<close> are arguments of the handler that reads them.
  \<^item> A \<open>while\<close> loop that may run forever is a \<open>partial_function\<close> into \<open>option\<close>:
    \<open>None\<close> says that the call never returns.
  \<^item> Writes to the page that nothing reads back (texts, colours, the progress bar, the
    preview table) and the beep are left out; the values and the \<open>disabled\<close> flags of
    the two choice buttons, which the handlers read, the visible screen and the four
    summary texts are kept.
  \<^item> A string is a list of bytes: white space, letters and digits are those of ASCII.
  \<^item> Clock readings, rates and random draws are real numbers. The arithmetic on clock
    readings and in the summary (\<open>t1 - state.t0\<close>, the sums and quotients of \<open>mean\<close>,
    \<open>median\<close> and \<open>finish\<close>, \<open>acc * 100\<close>) is that of doubles: each operation returns
    the double nearest to the exact result. The comparison of a draw with the rate is
    exact, and so is the product of a draw with a length, which only \<open>Math.floor\<close>
    reads.
\<close>

subsection \<open>Random numbers\<close>

type_synonym rnd = "nat \<Rightarrow> real"

text \<open>
  \<open>Math.random()\<close> returns a number in \<open>[0, 1)\<close>. The \<open>k\<close>-th call of a run returns the
  fractional part of the \<open>k\<close>-th element of an arbitrary sequence of reals: every sequence
  over \<open>[0, 1)\<close> is a random source, and no other value is ever drawn.
\<close>

definition Math_random :: "rnd \<Rightarrow> nat \<Rightarrow> real" where
  "Math_random rnd k = frac (rnd k)"

text \<open>\<open>Math.floor(Math.random() * m)\<close> for an array length or a loop index \<open>m\<close>.\<close>

definition random_index :: "rnd \<Rightarrow> nat \<Rightarrow> nat \<Rightarrow> nat" where
  "random_index rnd k m = nat \<lfloor>Math_random rnd k * real m\<rfloor>"

text \<open>
  \<open>shuffle(arr)\<close>: \<open>for (let i = arr.length - 1; i > 0; i--)\<close>, with
  \<open>j = Math.floor(Math.random() * (i + 1))\<close> and the swap
  \<open>[arr[i], arr[j]] = [arr[j], arr[i]]\<close>. The result is the array and the number of
  draws made.
\<close>

fun shuffle_loop :: "rnd \<Rightarrow> nat \<Rightarrow> 'a list \<Rightarrow> nat \<Rightarrow> 'a list \<times> nat" where
  "shuffle_loop rnd 0 arr k = (arr, k)"
| "shuffle_loop rnd (Suc i) arr k =
     (let j = random_index rnd k (Suc i + 1)
      in shuffle_loop rnd i (arr[Suc i := arr ! j, j := arr ! Suc i]) (Suc k))"

definition shuffle :: "rnd \<Rightarrow> 'a list \<Rightarrow> nat \<Rightarrow> 'a list \<times> nat" where
  "shuffle rnd arr k = shuffle_loop rnd (length arr - 1) arr k"

subsection \<open>Trial generation\<close>

record color =
  name :: string
  css :: string

definition COLORS :: "color list" where
  "COLORS =
     [\<lparr>name = ''RED'', css = ''#ff4d4d''\<rparr>,
      \<lparr>name = ''BLUE'', css = ''#4da3ff''\<rparr>,
      \<lparr>name = ''GREEN'', css = ''#52d69b''\<rparr>,
      \<lparr>name = ''YELLOW'', css = ''#ffd84d''\<rparr>]"

text \<open>\<open>COLORS[Math.floor(Math.random() * COLORS.length)].name\<close>, at the \<open>k\<close>-th draw.\<close>

definition random_color_name :: "rnd \<Rightarrow> nat \<Rightarrow> string" where
  "random_color_name rnd k = name (COLORS ! random_index rnd k (length COLORS))"

text \<open>
  \<open>pickTwoDifferentColorNames\<close>: the loop \<open>while (b === a) b = ...\<close> draws again as
  long as the second colour is the first; \<open>k\<close> is the index of the next draw.
\<close>

partial_function (option) redraw_loop :: "rnd \<Rightarrow> string \<Rightarrow> string \<Rightarrow> nat \<Rightarrow> (string \<times> nat) option" where [code]:
  "redraw_loop rnd a b k =
     (if b = a then redraw_loop rnd a (random_color_name rnd k) (Suc k) else Some (b, k))"

definition pickTwoDifferentColorNames :: "rnd \<Rightarrow> nat \<Rightarrow> ((string \<times> string) \<times> nat) option" where
  "pickTwoDifferentColorNames rnd k =
     (let a = random_color_name rnd k;
          b = random_color_name rnd (Suc k)
      in case redraw_loop rnd a b (Suc (Suc k)) of
           None \<Rightarrow> None
         | Some (b', k') \<Rightarrow> Some ((a, b'), k'))"

record trial =
  trial_index :: nat
  word :: string
  ink :: string
  congruency :: string
  choice_left :: string
  choice_right :: string
  correct_answer :: string

text \<open>\<open>Math.random() < incongruentRate\<close> and \<open>i < n\<close>: false when the right side is \<open>NaN\<close>.\<close>

definition lt_rate :: "real \<Rightarrow> real option \<Rightarrow> bool" where
  "lt_rate r incongruentRate = (case incongruentRate of None \<Rightarrow> False | Some p \<Rightarrow> r < p)"

definition lt_count :: "nat \<Rightarrow> int option \<Rightarrow> bool" where
  "lt_count i n = (case n of None \<Rightarrow> False | Some m \<Rightarrow> int i < m)"

text \<open>
  The body of the loop of \<open>generateTrials\<close> at index \<open>i\<close>: the Bernoulli draw, the two
  colour names, the shuffled pair of choices and the trial object.
\<close>

definition draw_word_ink :: "rnd \<Rightarrow> real option \<Rightarrow> nat \<Rightarrow> ((string \<times> string) \<times> nat) option" where
  "draw_word_ink rnd incongruentRate k =
     (let isIncon = lt_rate (Math_random rnd k) incongruentRate
      in if isIncon then pickTwoDifferentColorNames rnd (Suc k)
         else (let w = random_color_name rnd (Suc k) in Some ((w, w), Suc (Suc k))))"

definition generate_trial :: "rnd \<Rightarrow> real option \<Rightarrow> nat \<Rightarrow> nat \<Rightarrow> (trial \<times> nat) option" where
  "generate_trial rnd incongruentRate i k =
     (case draw_word_ink rnd incongruentRate k of
        None \<Rightarrow> None
      | Some ((w, c), k1) \<Rightarrow>
          (let (opts, k2) = shuffle rnd [w, c] k1
           in Some (\<lparr>trial_index = i + 1, word = w, ink = c,
                      congruency = (if w = c then ''congruent'' else ''incongruent''),
                      choice_left = opts ! 0, choice_right = opts ! 1,
                      correct_answer = c\<rparr>, k2)))"

text \<open>
  \<open>generateTrials(n, incongruentRate)\<close>: \<open>for (let i = 0; i < n; i++)\<close>, each trial
  pushed at the end of \<open>trials\<close>.
\<close>

function generate_loop ::
  "rnd \<Rightarrow> int option \<Rightarrow> real option \<Rightarrow> nat \<Rightarrow> trial list \<Rightarrow> nat \<Rightarrow> (trial list \<times> nat) option" where
  "generate_loop rnd n incongruentRate i trials k =
     (if lt_count i n then
        (case generate_trial rnd incongruentRate i k of
           None \<Rightarrow> None
         | Some (t, k') \<Rightarrow> generate_loop rnd n incongruentRate (Suc i) (trials @ [t]) k')
      else Some (trials, k))"
  by pat_completeness auto
termination
  by (relation "measure (\<lambda>(rnd, n, incongruentRate, i, trials, k).
        case n of None \<Rightarrow> 0 | Some m \<Rightarrow> nat (m - int i))")
     (auto simp: lt_count_def split: option.splits)

declare generate_loop.simps [simp del]

definition generateTrials :: "rnd \<Rightarrow> int option \<Rightarrow> real option \<Rightarrow> nat \<Rightarrow> (trial list \<times> nat) option" where
  "generateTrials rnd n incongruentRate k = generate_loop rnd n incongruentRate 0 [] k"

text \<open>
  The random sources on which the redraw loop always ends: after every draw a later draw
  gives another colour. A source that fails this repeats one colour for ever.
\<close>

definition unstuck :: "rnd \<Rightarrow> bool" where
  "unstuck rnd \<longleftrightarrow>
     (\<forall>k. \<exists>j. k < j \<and> random_color_name rnd j \<noteq> random_color_name rnd k)"

text \<open>A trial that the loop body can produce at index \<open>i\<close>.\<close>

definition generated :: "rnd \<Rightarrow> real option \<Rightarrow> nat \<Rightarrow> trial \<Rightarrow> bool" where
  "generated rnd incongruentRate i t \<longleftrightarrow>
     (\<exists>k k'. generate_trial rnd incongruentRate i k = Some (t, k'))"

subsection \<open>Strings and numbers of JavaScript\<close>

definition is_space :: "char \<Rightarrow> bool" where
  "is_space c \<longleftrightarrow> c \<in> set [CHR '' '', CHR 0x09, CHR 0x0A, CHR 0x0B, CHR 0x0C, CHR 0x0D]"

definition trim :: "string \<Rightarrow> string" where
  "trim s = rev (dropWhile is_space (rev (dropWhile is_space s)))"

text \<open>\<open>String(n)\<close> for an integer \<open>n\<close>.\<close>

function digits :: "nat \<Rightarrow> string" where
  "digits n =
     (if n < 10 then [''0123456789'' ! n]
      else digits (n div 10) @ [''0123456789'' ! (n mod 10)])"
  by pat_completeness auto
termination
  by (relation "measure id") auto

declare digits.simps [simp del]

definition String_of_int :: "int \<Rightarrow> string" where
  "String_of_int i = (if i < 0 then CHR ''-'' # digits (nat (- i)) else digits (nat i))"

text \<open>\<open>Math.round(x)\<close>: the nearest integer, a half rounded up.\<close>

definition Math_round :: "real \<Rightarrow> int" where
  "Math_round x = \<lfloor>x + 1 / 2\<rfloor>"

text \<open>
  The values of the fields of a response object are strings and integers. The object
  itself is the list of its keys and values in the order of the object literal, which
  is the order \<open>Object.keys\<close> lists them in; a key that is missing reads as
  \<open>undefined\<close>, here \<open>None\<close>.
\<close>

datatype jsval = Str string | Num int

type_synonym obj = "(string \<times> jsval) list"

definition get_prop :: "obj \<Rightarrow> string \<Rightarrow> jsval option" where
  "get_prop r h = map_of r h"

definition String_of :: "jsval \<Rightarrow> string" where
  "String_of v = (case v of Str s \<Rightarrow> s | Num n \<Rightarrow> String_of_int n)"

definition truthy :: "jsval option \<Rightarrow> bool" where
  "truthy v = (case v of None \<Rightarrow> False | Some (Str s) \<Rightarrow> s \<noteq> [] | Some (Num n) \<Rightarrow> n \<noteq> 0)"

subsection \<open>Arithmetic on doubles\<close>

text \<open>
  A JavaScript number is an IEEE 754 double: a multiple \<open>m * 2^j\<close> of a power of two
  with \<open>\<bar>m\<bar> < 2^53\<close> and \<open>j \<ge> -1074\<close>. The operators \<open>+\<close>, \<open>-\<close>, \<open>*\<close> and \<open>/\<close>
  return the double nearest to the exact result, a tie going to the even significand.
  \<open>ulp x\<close> is the distance of two neighbouring doubles at the size of \<open>x\<close> (\<open>2^-1074\<close>
  for the subnormal numbers, below \<open>2^-1022\<close>). Results of the size \<open>2^1024\<close> and more,
  which a double replaces by an infinity, are left out.
\<close>

definition pow2 :: "int \<Rightarrow> real" where
  "pow2 k = (if 0 \<le> k then 2 ^ nat k else 1 / 2 ^ nat (- k))"

definition round_even :: "real \<Rightarrow> int" where
  "round_even y =
     (let f = \<lfloor>y\<rfloor>; d = y - real_of_int f
      in if d < 1 / 2 then f else if 1 / 2 < d then f + 1
         else if even f then f else f + 1)"

definition ulp :: "real \<Rightarrow> real" where
  "ulp x = pow2 (max \<lfloor>log 2 \<bar>x\<bar>\<rfloor> (- 1022) - 52)"

definition double_round :: "real \<Rightarrow> real" where
  "double_round x = (if x = 0 then 0 else real_of_int (round_even (x / ulp x)) * ulp x)"

definition double_add :: "real \<Rightarrow> real \<Rightarrow> real" where
  "double_add x y = double_round (x + y)"

definition double_sub :: "real \<Rightarrow> real \<Rightarrow> real" where
  "double_sub x y = double_round (x - y)"

definition double_mul :: "real \<Rightarrow> real \<Rightarrow> real" where
  "double_mul x y = double_round (x * y)"

definition double_div :: "real \<Rightarrow> real \<Rightarrow> real" where
  "double_div x y = double_round (x / y)"

subsection \<open>Helpers: median, mean, toCSV\<close>

text \<open>
  \<open>median(values)\<close> and \<open>mean(values)\<close>, on the integers that \<open>finish\<close> passes;
  \<open>None\<close> is \<open>NaN\<close>. \<open>[...values].sort((x,y) => x-y)\<close> sorts in ascending order.
  The sum of \<open>mean\<close> is \<open>values.reduce((s,v) => s+v, 0)\<close>.
\<close>

definition median :: "int list \<Rightarrow> real option" where
  "median values =
     (if length values = 0 then None
      else (let a = sort values; mid = length a div 2
            in Some (if length a mod 2 \<noteq> 0 then real_of_int (a ! mid)
                     else double_div (double_add (real_of_int (a ! (mid - 1)))
                                                 (real_of_int (a ! mid))) 2)))"

definition mean :: "int list \<Rightarrow> real option" where
  "mean values =
     (if length values = 0 then None
      else Some (double_div (foldl (\<lambda>s v. double_add s (real_of_int v)) 0 values)
                            (real (length values))))"

definition join :: "string \<Rightarrow> string list \<Rightarrow> string" where
  "join sep xs = (case xs of [] \<Rightarrow> [] | y # ys \<Rightarrow> foldl (\<lambda>acc x. acc @ sep @ x) y ys)"

text \<open>\<open>/[",\n]/.test(s)\<close>\<close>

definition needs_quotes :: "string \<Rightarrow> bool" where
  "needs_quotes s \<longleftrightarrow> (\<exists>c \<in> set s. c = CHR 0x22 \<or> c = CHR '','' \<or> c = CHR 0x0A)"

text \<open>\<open>s.replace(/"/g, '""')\<close>\<close>

definition double_quotes :: "string \<Rightarrow> string" where
  "double_quotes s = concat (map (\<lambda>c. if c = CHR 0x22 then [CHR 0x22, CHR 0x22] else [c]) s)"

text \<open>The closure \<open>esc\<close> of \<open>toCSV\<close>.\<close>

definition esc :: "jsval option \<Rightarrow> string" where
  "esc v =
     (case v of
        None \<Rightarrow> []
      | Some x \<Rightarrow>
          (let s = String_of x
           in if needs_quotes s then [CHR 0x22] @ double_quotes s @ [CHR 0x22] else s))"

definition toCSV :: "obj list \<Rightarrow> string" where
  "toCSV rows =
     (if length rows = 0 then []
      else (let headers = map fst (hd rows);
                lines = [join '','' (map (\<lambda>h. esc (Some (Str h))) headers)]
                  @ map (\<lambda>r. join '','' (map (\<lambda>h. esc (get_prop r h)) headers)) rows
            in join [CHR 0x0A] lines))"

subsection \<open>A reader of RFC 4180 text\<close>

text \<open>
  The reader against which the output of \<open>toCSV\<close> is read back; it is not part of the
  program. It reads the text from left to right in four modes: at the start of a field,
  inside an unquoted field, inside a quoted field, and after a double quote met inside a
  quoted field (which closes the field unless a second quote follows). A comma ends a
  field and a line feed ends a record, outside quotes. The table is built from the end of
  the text: each character is put in front of the first field of the first record.
\<close>

type_synonym table = "string list list"

definition add_char :: "char \<Rightarrow> table \<Rightarrow> table" where
  "add_char c t =
     (case t of
        [] \<Rightarrow> [[[c]]]
      | fs # rs \<Rightarrow> (case fs of [] \<Rightarrow> [[c]] # rs | f # fs' \<Rightarrow> ((c # f) # fs') # rs))"

definition new_field :: "table \<Rightarrow> table" where
  "new_field t = (case t of [] \<Rightarrow> [[[], []]] | fs # rs \<Rightarrow> ([] # fs) # rs)"

definition new_record :: "table \<Rightarrow> table" where
  "new_record t = [[]] # t"

fun at_start :: "string \<Rightarrow> table"
  and unquoted :: "string \<Rightarrow> table"
  and quoted :: "string \<Rightarrow> table"
  and after_quote :: "string \<Rightarrow> table" where
  "at_start [] = [[[]]]"
| "at_start (c # cs) =
     (if c = CHR 0x22 then quoted cs
      else if c = CHR '','' then new_field (at_start cs)
      else if c = CHR 0x0A then new_record (at_start cs)
      else add_char c (unquoted cs))"
| "unquoted [] = [[[]]]"
| "unquoted (c # cs) =
     (if c = CHR '','' then new_field (at_start cs)
      else if c = CHR 0x0A then new_record (at_start cs)
      else add_char c (unquoted cs))"
| "quoted [] = [[[]]]"
| "quoted (c # cs) = (if c = CHR 0x22 then after_quote cs else add_char c (quoted cs))"
| "after_quote [] = [[[]]]"
| "after_quote (c # cs) =
     (if c = CHR 0x22 then add_char c (quoted cs)
      else if c = CHR '','' then new_field (at_start cs)
      else if c = CHR 0x0A then new_record (at_start cs)
      else add_char c (unquoted cs))"

text \<open>The rest of a text after a field: nothing, or a comma or a line feed first.\<close>

definition delimited :: "string \<Rightarrow> bool" where
  "delimited rest \<longleftrightarrow> rest = [] \<or> hd rest = CHR '','' \<or> hd rest = CHR 0x0A"

definition read_csv :: "string \<Rightarrow> table" where
  "read_csv text = at_start text"

text \<open>
  The table that the claim describes for a list of records: the field names of the first
  record, then for each record the texts of its values under those names, a missing
  value being the empty text.
\<close>

definition text_of :: "jsval option \<Rightarrow> string" where
  "text_of v = (case v of None \<Rightarrow> [] | Some x \<Rightarrow> String_of x)"

definition csv_table :: "obj list \<Rightarrow> table" where
  "csv_table rows =
     map fst (hd rows) # map (\<lambda>r. map (\<lambda>h. text_of (get_prop r h)) (map fst (hd rows))) rows"

text \<open>A field as the claim says it is written: in double quotes, the quotes in it
  doubled, when it holds a comma, a double quote or a line feed; as it is otherwise.\<close>

definition quote_field :: "string \<Rightarrow> string" where
  "quote_field s = (if needs_quotes s then [CHR 0x22] @ double_quotes s @ [CHR 0x22] else s)"

subsection \<open>The state object, the page and the platform\<close>

datatype phase = Setup | Practice | Test | Done

datatype screen = ScreenSetup | ScreenTest | ScreenDone

record participant =
  pid :: string
  condition :: string
  speed :: string
  notes_text :: string

record settings =
  nTrials :: "int option"
  inconRate :: "real option"
  beep :: bool
  practice :: bool
  voice :: bool

record button =
  disabled :: bool
  dataset_value :: string

text \<open>
  The fields of the \<open>state\<close> object come first (\<open>beepFn\<close> and \<open>rec\<close> say whether the
  field holds a function or a recogniser, or \<open>null\<close>). Then the parts of the page that the
  code reads or that the claims name: the two choice buttons, the visible screen and the
  four summary texts. Then the platform: whether the recogniser is in a started session,
  the pending \<open>setTimeout\<close> callbacks of \<open>presentTrial\<close> (the delay and the trial each one
  has captured), and the number of \<open>Math.random()\<close> calls made.
\<close>

record state =
  participant :: participant
  settings :: settings
  phase :: phase
  trials :: "trial list"
  results :: "obj list"
  idx :: nat
  t0 :: real
  beepFn :: bool
  rec :: bool
  recActive :: bool
  answered :: bool
  choiceA :: button
  choiceB :: button
  screen :: screen
  mTrials :: string
  mAcc :: string
  mMean :: string
  mMedian :: string
  listening :: bool
  timers :: "(nat \<times> trial) list"
  draws :: nat

text \<open>The values of the inputs of the setup screen when Start is clicked:
  \<open>nTrials_value\<close> is \<open>parseInt(nTrials.value, 10)\<close>, \<open>inconRate_value\<close> is
  \<open>parseFloat(inconRate.value)\<close>, \<open>voiceToggle_checked\<close> is \<open>None\<close> when the page has
  no such element, and \<open>makeBeep_ok\<close> says that \<open>makeBeep()\<close> does not throw.\<close>

record form =
  pid_value :: string
  condition_value :: string
  speed_value :: string
  notes_value :: string
  audioToggle_checked :: bool
  practiceToggle_checked :: bool
  voiceToggle_checked :: "bool option"
  nTrials_value :: "int option"
  inconRate_value :: "real option"
  makeBeep_ok :: bool

datatype error = TypeError | ReferenceError

text \<open>
  What a call of a handler does: it returns, it throws (the state is the one the throw
  leaves behind: nothing is rolled back), or it never returns.
\<close>

datatype outcome = Returned state | Threw error state | Diverges

text \<open>The em dash that \<open>finish\<close> shows for a value it does not have, in UTF-8.\<close>

definition dash :: string where
  "dash = [CHR 0xE2, CHR 0x80, CHR 0x94]"

definition init_state :: state where
  "init_state =
     \<lparr>participant = \<lparr>pid = [], condition = ''walk'', speed = [], notes_text = []\<rparr>,
      settings = \<lparr>nTrials = Some 10, inconRate = Some (7 / 10), beep = True,
                  practice = False, voice = False\<rparr>,
      phase = Setup, trials = [], results = [], idx = 0, t0 = 0, beepFn = False,
      rec = False, recActive = False, answered = False,
      choiceA = \<lparr>disabled = False, dataset_value = []\<rparr>,
      choiceB = \<lparr>disabled = False, dataset_value = []\<rparr>,
      screen = ScreenSetup, mTrials = [], mAcc = [], mMean = [], mMedian = [],
      listening = False, timers = [], draws = 0\<rparr>"

subsection \<open>Flow\<close>

definition show_screen :: "screen \<Rightarrow> state \<Rightarrow> state" where
  "show_screen sc s = s\<lparr>screen := sc\<rparr>"

definition stopRecognition :: "state \<Rightarrow> state" where
  "stopRecognition s =
     (let s1 = (if rec s \<and> recActive s then s\<lparr>listening := False\<rparr> else s)
      in s1\<lparr>recActive := False\<rparr>)"

text \<open>\<open>start_throws\<close>: the call \<open>rec.start()\<close> throws.\<close>

definition startRecognitionForTrial :: "bool \<Rightarrow> state \<Rightarrow> state" where
  "startRecognitionForTrial start_throws s =
     (if \<not> voice (settings s) \<or> \<not> rec s then s
      else (let s1 = stopRecognition s;
                s2 = s1\<lparr>recActive := True\<rparr>
            in if start_throws then stopRecognition s2 else s2\<lparr>listening := True\<rparr>))"

definition lockChoices :: "bool \<Rightarrow> state \<Rightarrow> state" where
  "lockChoices lock s =
     s\<lparr>choiceA := (choiceA s)\<lparr>disabled := lock\<rparr>, choiceB := (choiceB s)\<lparr>disabled := lock\<rparr>\<rparr>"

definition setStimulus :: "trial \<Rightarrow> state \<Rightarrow> state" where
  "setStimulus trial s =
     s\<lparr>choiceA := (choiceA s)\<lparr>dataset_value := choice_left trial\<rparr>,
       choiceB := (choiceB s)\<lparr>dataset_value := choice_right trial\<rparr>\<rparr>"

definition startPhase :: "phase \<Rightarrow> state \<Rightarrow> state" where
  "startPhase ph s = s\<lparr>phase := ph, idx := 0, results := []\<rparr>"

text \<open>\<open>state.results.map(r => r.rt_ms).filter(v => Number.isFinite(v))\<close>\<close>

definition finite_numbers :: "jsval option list \<Rightarrow> int list" where
  "finite_numbers vs = concat (map (\<lambda>v. case v of Some (Num n) \<Rightarrow> [n] | _ \<Rightarrow> []) vs)"

definition rts_of :: "obj list \<Rightarrow> int list" where
  "rts_of rs = finite_numbers (map (\<lambda>r. get_prop r ''rt_ms'') rs)"

text \<open>The variable \<open>acc\<close> of \<open>finish\<close>: the quotient of
  \<open>state.results.reduce((s,r) => s + (r.correct ? 1 : 0), 0)\<close> and
  \<open>state.results.length\<close>.\<close>

definition acc_of :: "obj list \<Rightarrow> real" where
  "acc_of rs =
     (if length rs \<noteq> 0
      then double_div
             (foldl (\<lambda>s r. double_add s (if truthy (get_prop r ''correct'') then 1 else 0)) 0 rs)
             (real (length rs))
      else 0)"

definition rounded_ms :: "real option \<Rightarrow> string" where
  "rounded_ms v = (case v of None \<Rightarrow> ''NaN'' | Some x \<Rightarrow> String_of_int (Math_round x)) @ '' ms''"

definition finish :: "state \<Rightarrow> state" where
  "finish s =
     (let s1 = show_screen ScreenDone (stopRecognition s);
          rts = rts_of (results s1);
          acc = acc_of (results s1)
      in s1\<lparr>mTrials := String_of_int (int (length (results s1))),
            mAcc := (if length (results s1) \<noteq> 0
                     then String_of_int (Math_round (double_mul acc 100)) @ ''%'' else dash),
            mMean := (if length rts \<noteq> 0 then rounded_ms (mean rts) else dash),
            mMedian := (if length rts \<noteq> 0 then rounded_ms (median rts) else dash)\<rparr>)"

text \<open>
  \<open>presentTrial\<close>. With a current trial it clears the latch, locks and blanks the
  choices and sets the timer (\<open>schedule_stimulus\<close>, with the delay
  \<open>250 + Math.floor(Math.random() * 250)\<close>); the callback of the timer is
  \<open>stimulus_shown\<close> below. With none it starts the test phase after practice, or
  finishes.
\<close>

definition schedule_stimulus :: "rnd \<Rightarrow> trial \<Rightarrow> state \<Rightarrow> state" where
  "schedule_stimulus rnd trial s =
     (let s1 = lockChoices True (s\<lparr>answered := False\<rparr>);
          delay = 250 + random_index rnd (draws s1) 250;
          s2 = s1\<lparr>draws := Suc (draws s1)\<rparr>;
          s3 = s2\<lparr>choiceA := (choiceA s2)\<lparr>dataset_value := []\<rparr>,
                  choiceB := (choiceB s2)\<lparr>dataset_value := []\<rparr>\<rparr>
      in s3\<lparr>timers := timers s3 @ [(delay, trial)]\<rparr>)"

function presentTrial :: "rnd \<Rightarrow> state \<Rightarrow> state option" where
  "presentTrial rnd s =
     (if idx s < length (trials s) then Some (schedule_stimulus rnd (trials s ! idx s) s)
      else if phase s = Practice then
        (let s1 = startPhase Test s
         in case generateTrials rnd (nTrials (settings s1)) (inconRate (settings s1)) (draws s1) of
              None \<Rightarrow> None
            | Some (ts, k) \<Rightarrow> presentTrial rnd (s1\<lparr>trials := ts, draws := k\<rparr>))
      else Some (finish s))"
  by pat_completeness auto
termination
  by (relation "measure (\<lambda>(rnd, s).
        if idx s < length (trials s) then 0 else if phase s = Practice then 1 else 0)")
     (auto simp: startPhase_def)

declare presentTrial.simps [simp del]

text \<open>The callback that \<open>presentTrial\<close> hands to \<open>setTimeout\<close>, run at clock reading
  \<open>now\<close> with the trial it has captured. It reads neither the phase nor the trial list.\<close>

definition stimulus_shown :: "bool \<Rightarrow> real \<Rightarrow> trial \<Rightarrow> state \<Rightarrow> state" where
  "stimulus_shown start_throws now trial s =
     startRecognitionForTrial start_throws ((lockChoices False (setStimulus trial s))\<lparr>t0 := now\<rparr>)"

text \<open>The platform runs the \<open>i\<close>-th pending timer.\<close>

definition timer_fires :: "nat \<Rightarrow> bool \<Rightarrow> real \<Rightarrow> state \<Rightarrow> state" where
  "timer_fires i start_throws now s =
     (if i < length (timers s)
      then stimulus_shown start_throws now (snd (timers s ! i))
             (s\<lparr>timers := take i (timers s) @ drop (Suc i) (timers s)\<rparr>)
      else s)"

text \<open>The object that \<open>recordAnswer\<close> pushes.\<close>

definition response_record :: "state \<Rightarrow> trial \<Rightarrow> string \<Rightarrow> int \<Rightarrow> string \<Rightarrow> obj" where
  "response_record s trial chosen rt_ms timestamp =
     [(''timestamp_local'', Str timestamp),
      (''participant_id'', Str (pid (participant s))),
      (''condition'', Str (condition (participant s))),
      (''treadmill_speed'', Str (speed (participant s))),
      (''notes'', Str (notes_text (participant s))),
      (''trial'', Num (int (trial_index trial))),
      (''word'', Str (word trial)),
      (''ink_colour'', Str (ink trial)),
      (''congruency'', Str (congruency trial)),
      (''choice_left'', Str (choice_left trial)),
      (''choice_right'', Str (choice_right trial)),
      (''correct_answer'', Str (correct_answer trial)),
      (''response'', Str chosen),
      (''correct'', Num (if chosen = correct_answer trial then 1 else 0)),
      (''rt_ms'', Num rt_ms)]"

text \<open>
  \<open>recordAnswer(chosen)\<close>, with \<open>now\<close> the value of \<open>performance.now()\<close> and \<open>stamp\<close>
  that of \<open>nowISO()\<close>; \<open>rt_ms\<close> is \<open>Math.round(t1 - state.t0)\<close>. Without a current
  trial, \<open>trial.correct_answer\<close> throws.
\<close>

definition recordAnswer :: "rnd \<Rightarrow> string \<Rightarrow> real \<Rightarrow> string \<Rightarrow> state \<Rightarrow> outcome" where
  "recordAnswer rnd chosen now stamp s =
     (let s1 = stopRecognition s
      in if idx s1 < length (trials s1) then
           (let trial = trials s1 ! idx s1;
                rt_ms = Math_round (double_sub now (t0 s1));
                s2 = (if phase s1 = Test
                      then s1\<lparr>results := results s1 @ [response_record s1 trial chosen rt_ms stamp]\<rparr>
                      else s1);
                s3 = s2\<lparr>idx := idx s2 + 1\<rparr>
            in case presentTrial rnd s3 of None \<Rightarrow> Diverges | Some s4 \<Rightarrow> Returned s4)
         else Threw TypeError s1)"

definition startTest :: "rnd \<Rightarrow> form \<Rightarrow> state \<Rightarrow> state option" where
  "startTest rnd f s =
     (let s1 = s\<lparr>participant := \<lparr>pid = trim (pid_value f), condition = condition_value f,
                                   speed = trim (speed_value f), notes_text = trim (notes_value f)\<rparr>,
                 settings := \<lparr>nTrials = nTrials_value f, inconRate = inconRate_value f,
                               beep = audioToggle_checked f, practice = practiceToggle_checked f,
                               voice = (case voiceToggle_checked f of None \<Rightarrow> False | Some b \<Rightarrow> b)\<rparr>\<rparr>;
          s2 = s1\<lparr>beepFn := (beep (settings s1) \<and> makeBeep_ok f)\<rparr>;
          s3 = (if practice (settings s2) then startPhase Practice s2 else startPhase Test s2);
          n = (if practice (settings s2) then Some 2 else nTrials (settings s2))
      in case generateTrials rnd n (inconRate (settings s3)) (draws s3) of
           None \<Rightarrow> None
         | Some (ts, k) \<Rightarrow> presentTrial rnd (show_screen ScreenTest (s3\<lparr>trials := ts, draws := k\<rparr>)))"

subsection \<open>Events\<close>

datatype choice = ChoiceA | ChoiceB

definition button_of :: "choice \<Rightarrow> state \<Rightarrow> button" where
  "button_of b s = (case b of ChoiceA \<Rightarrow> choiceA s | ChoiceB \<Rightarrow> choiceB s)"

text \<open>\<open>onChoice(e)\<close>, for a click on the button \<open>b\<close>. The handler reads the value of
  the button and the latch; it does not read the \<open>disabled\<close> flag (a browser dispatches
  no click on a disabled button).\<close>

definition onChoice :: "rnd \<Rightarrow> choice \<Rightarrow> real \<Rightarrow> string \<Rightarrow> state \<Rightarrow> outcome" where
  "onChoice rnd b now stamp s =
     (let v = dataset_value (button_of b s)
      in if v = [] then Returned s
         else if answered s then Returned s
         else recordAnswer rnd v now stamp (stopRecognition (lockChoices True (s\<lparr>answered := True\<rparr>))))"

text \<open>
  \<open>rec.onresult\<close> (lines 261 to 274), for an event whose first alternative has the given
  transcript. After \<open>if (state.answered) return;\<close> the handler reads the transcript and
  calls \<open>mapSpeechToColor(transcript)\<close>. The declarations of \<open>getSpeechRecognition\<close>,
  \<open>normalizeSpeech\<close> and \<open>mapSpeechToColor\<close> stand inside the body of \<open>makeBeep\<close>
  (lines 79 to 136): the name is not in scope at line 265, the call throws a
  \<open>ReferenceError\<close>, and the statements after it, which set the latch and call
  \<open>recordAnswer\<close>, never run.
\<close>

definition onresult :: "string \<Rightarrow> state \<Rightarrow> outcome" where
  "onresult transcript s = (if answered s then Returned s else Threw ReferenceError s)"

text \<open>\<open>rec.onerror\<close>, and \<open>rec.onend\<close> (the session of the recogniser has ended).\<close>

definition onerror :: "state \<Rightarrow> state" where
  "onerror s = stopRecognition s"

definition onend :: "state \<Rightarrow> state" where
  "onend s = s\<lparr>listening := False, recActive := False\<rparr>"

text \<open>The click handlers of \<open>btnAbort\<close> and \<open>btnRestart\<close>.\<close>

definition btnAbort_click :: "state \<Rightarrow> state" where
  "btnAbort_click s =
     show_screen ScreenSetup
       ((stopRecognition (stopRecognition s))\<lparr>phase := Setup, trials := [], results := []\<rparr>)"

definition btnRestart_click :: "state \<Rightarrow> state" where
  "btnRestart_click s =
     show_screen ScreenSetup ((stopRecognition s)\<lparr>phase := Setup, trials := [], results := []\<rparr>)"

text \<open>
  The two events that answer a trial, the handler of each, and the run of a sequence of
  them, each with the clock reading and the local time at which it is dispatched. After
  an uncaught throw the next event finds the state as the throw left it.

  A result of the recogniser is an event of the object \<open>state.rec\<close>, and \<open>onresult\<close> is
  a property that \<open>startRecognitionForTrial\<close> gives to that object. \<open>state.rec\<close> is
  \<open>null\<close> in the object literal (line 155) and no statement assigns it: without a
  recogniser there is no such event (\<open>dispatchable\<close>), and no handler to run.
\<close>

datatype event = Tap choice | SpeechResult string


definition handle :: "rnd \<Rightarrow> event \<Rightarrow> real \<Rightarrow> string \<Rightarrow> state \<Rightarrow> outcome" where
  "handle rnd e now stamp s =
     (case e of Tap b \<Rightarrow> onChoice rnd b now stamp s
              | SpeechResult transcript \<Rightarrow> if rec s then onresult transcript s else Returned s)"

fun run_events :: "rnd \<Rightarrow> (event \<times> real \<times> string) list \<Rightarrow> state \<Rightarrow> state option" where
  "run_events rnd [] s = Some s"
| "run_events rnd ((e, now, stamp) # es) s =
     (case handle rnd e now stamp s of
        Returned s' \<Rightarrow> run_events rnd es s'
      | Threw err s' \<Rightarrow> run_events rnd es s'
      | Diverges \<Rightarrow> None)"

text \<open>The label that a handler obtains from an event, if any: the value of the tapped
  button when it is not empty; \<open>onresult\<close> never obtains one.\<close>

definition resolve :: "event \<Rightarrow> state \<Rightarrow> string option" where
  "resolve e s =
     (case e of
        Tap b \<Rightarrow> (let v = dataset_value (button_of b s) in if v = [] then None else Some v)
      | SpeechResult transcript \<Rightarrow> None)"

text \<open>
  A run of the page: the clicks on Start, Abort and Restart, a pending timer that fires,
  an answer event, and the end and the error events of the recogniser. Each step comes
  with the time that has passed since the step before and with the local time.
  \<open>performance.now()\<close> is monotonic: the reading at a step is the reading at the step
  before plus a time that is not negative.
\<close>

datatype step = StartClick form | AbortClick | RestartClick | TimerFires nat bool
  | Dispatch event | SpeechEnd | SpeechError

definition step_at :: "rnd \<Rightarrow> step \<Rightarrow> real \<Rightarrow> string \<Rightarrow> state \<Rightarrow> state option" where
  "step_at rnd st now stamp s =
     (case st of
        StartClick f \<Rightarrow> startTest rnd f s
      | AbortClick \<Rightarrow> Some (btnAbort_click s)
      | RestartClick \<Rightarrow> Some (btnRestart_click s)
      | TimerFires i start_throws \<Rightarrow> Some (timer_fires i start_throws now s)
      | Dispatch e \<Rightarrow>
          (case handle rnd e now stamp s of
             Returned s' \<Rightarrow> Some s' | Threw err s' \<Rightarrow> Some s' | Diverges \<Rightarrow> None)
      | SpeechEnd \<Rightarrow> Some (if rec s then onend s else s)
      | SpeechError \<Rightarrow> Some (if rec s then onerror s else s))"

fun run :: "rnd \<Rightarrow> (real \<times> string \<times> step) list \<Rightarrow> real \<times> state \<Rightarrow> (real \<times> state) option" where
  "run rnd [] (clock, s) = Some (clock, s)"
| "run rnd ((elapsed, stamp, st) # rest) (clock, s) =
     (case step_at rnd st (clock + \<bar>elapsed\<bar>) stamp s of
        None \<Rightarrow> None
      | Some s' \<Rightarrow> run rnd rest (clock + \<bar>elapsed\<bar>, s'))"



text \<open>The labels of the recorded responses, in order.\<close>

definition responses :: "state \<Rightarrow> jsval option list" where
  "responses s = map (\<lambda>r. get_prop r ''response'') (results s)"

text \<open>The state on which \<open>startTest\<close> calls \<open>presentTrial\<close>, for the batch \<open>ts\<close> that
  the generator has returned after \<open>k\<close> draws.\<close>

definition started :: "form \<Rightarrow> trial list \<Rightarrow> nat \<Rightarrow> state \<Rightarrow> state" where
  "started f ts k s =
     s\<lparr>participant := \<lparr>pid = trim (pid_value f), condition = condition_value f,
                        speed = trim (speed_value f), notes_text = trim (notes_value f)\<rparr>,
       settings := \<lparr>nTrials = nTrials_value f, inconRate = inconRate_value f,
                     beep = audioToggle_checked f, practice = practiceToggle_checked f,
                     voice = (case voiceToggle_checked f of None \<Rightarrow> False | Some b \<Rightarrow> b)\<rparr>,
       beepFn := (audioToggle_checked f \<and> makeBeep_ok f),
       phase := (if practiceToggle_checked f then Practice else Test),
       idx := 0, results := [], trials := ts, draws := k, screen := ScreenTest\<rparr>"

text \<open>The state in which \<open>onChoice\<close> calls \<open>recordAnswer\<close>: the latch set, the
  choices locked, the recogniser stopped.\<close>

definition latched :: "state \<Rightarrow> state" where
  "latched s = stopRecognition (lockChoices True (s\<lparr>answered := True\<rparr>))"



text \<open>The flag \<open>recActive\<close> covers the session of the recogniser: the recogniser is
  in a started session only if there is one and the flag is set.\<close>

definition rec_consistent :: "state \<Rightarrow> bool" where
  "rec_consistent s \<longleftrightarrow> (listening s \<longrightarrow> rec s \<and> recActive s)"

subsection \<open>Sample inputs\<close>

text \<open>A random source that cycles through \<open>0\<close>, \<open>3/8\<close>, \<open>6/8\<close>, \<open>1/8\<close>, \<open>4/8\<close>,
  \<open>7/8\<close>, \<open>2/8\<close> and \<open>5/8\<close>.\<close>

definition cycle_rnd :: rnd where
  "cycle_rnd k = real (3 * k mod 8) / 8"

text \<open>What \<open>generateTrials\<close> returns on that source from its first draw, for three
  trials at the rates \<open>1/2\<close> and \<open>1\<close>.\<close>

definition sample_trials :: "trial list" where
  "sample_trials =
     [\<lparr>trial_index = 1, word = ''BLUE'', ink = ''YELLOW'', congruency = ''incongruent'',
       choice_left = ''YELLOW'', choice_right = ''BLUE'', correct_answer = ''YELLOW''\<rparr>,
      \<lparr>trial_index = 2, word = ''YELLOW'', ink = ''YELLOW'', congruency = ''congruent'',
       choice_left = ''YELLOW'', choice_right = ''YELLOW'', correct_answer = ''YELLOW''\<rparr>,
      \<lparr>trial_index = 3, word = ''RED'', ink = ''RED'', congruency = ''congruent'',
       choice_left = ''RED'', choice_right = ''RED'', correct_answer = ''RED''\<rparr>]"

definition incongruent_trials :: "trial list" where
  "incongruent_trials =
     [\<lparr>trial_index = 1, word = ''BLUE'', ink = ''YELLOW'', congruency = ''incongruent'',
       choice_left = ''YELLOW'', choice_right = ''BLUE'', correct_answer = ''YELLOW''\<rparr>,
      \<lparr>trial_index = 2, word = ''YELLOW'', ink = ''BLUE'', congruency = ''incongruent'',
       choice_left = ''YELLOW'', choice_right = ''BLUE'', correct_answer = ''BLUE''\<rparr>,
      \<lparr>trial_index = 3, word = ''BLUE'', ink = ''YELLOW'', congruency = ''incongruent'',
       choice_left = ''YELLOW'', choice_right = ''BLUE'', correct_answer = ''YELLOW''\<rparr>]"

text \<open>Two records as \<open>recordAnswer\<close> pushes them: a correct answer after 100 ms and a
  wrong one after 300 ms.\<close>

definition sample_records :: "obj list" where
  "sample_records =
     [response_record init_state (sample_trials ! 0) ''YELLOW'' 100 ''2024-05-01T10:00:00'',
      response_record init_state (sample_trials ! 1) ''RED'' 300 ''2024-05-01T10:00:02'']"

text \<open>Two records whose notes hold a comma and a double quote, and a line feed.\<close>

definition tricky_records :: "obj list" where
  "tricky_records =
     [[(''trial'', Num 1), (''notes'', Str [CHR ''a'', CHR '','', CHR 0x22, CHR ''b''])],
      [(''trial'', Num 2), (''notes'', Str [CHR ''c'', CHR 0x0A, CHR ''d''])]]"

text \<open>
  The inputs of a run of three trials at the rate \<open>1/2\<close> without practice; the state
  after Start is clicked on the page as loaded, with the first timer pending; and the
  state after that timer has run at the clock reading 1000.
\<close>

definition sample_form :: form where
  "sample_form =
     \<lparr>pid_value = '' P01 '', condition_value = ''walk'', speed_value = ''3.5'',
      notes_value = [], audioToggle_checked = False, practiceToggle_checked = False,
      voiceToggle_checked = Some True, nTrials_value = Some 3, inconRate_value = Some (1 / 2),
      makeBeep_ok = True\<rparr>"

definition running_state :: state where
  "running_state =
     init_state
       \<lparr>participant := \<lparr>pid = ''P01'', condition = ''walk'', speed = ''3.5'', notes_text = []\<rparr>,
        settings := \<lparr>nTrials = Some 3, inconRate = Some (1 / 2), beep = False,
                     practice = False, voice = True\<rparr>,
        phase := Test, trials := sample_trials,
        choiceA := \<lparr>disabled = True, dataset_value = []\<rparr>,
        choiceB := \<lparr>disabled = True, dataset_value = []\<rparr>,
        screen := ScreenTest, timers := [(437, sample_trials ! 0)], draws := 11\<rparr>"

definition armed_state :: state where
  "armed_state =
     running_state
       \<lparr>t0 := 1000,
        choiceA := \<lparr>disabled = False, dataset_value = ''YELLOW''\<rparr>,
        choiceB := \<lparr>disabled = False, dataset_value = ''BLUE''\<rparr>,
        timers := []\<rparr>"

text \<open>The same trial armed in a practice phase, and a practice phase of two trials whose
  two trials have been answered.\<close>

definition practice_state :: state where
  "practice_state = armed_state\<lparr>phase := Practice\<rparr>"

definition practice_end :: state where
  "practice_end = armed_state\<lparr>phase := Practice, trials := take 2 sample_trials, idx := 2\<rparr>"


definition bad_form :: form where
  "bad_form = sample_form\<lparr>nTrials_value := None, inconRate_value := Some (15 / 2)\<rparr>"

text \<open>The same inputs started again after Abort was clicked in \<open>running_state\<close>: the
  new batch, and the timer of the aborted run still pending before the new one.\<close>

definition restart_trials :: "trial list" where
  "restart_trials =
     [\<lparr>trial_index = 1, word = ''GREEN'', ink = ''YELLOW'', congruency = ''incongruent'',
       choice_left = ''YELLOW'', choice_right = ''GREEN'', correct_answer = ''YELLOW''\<rparr>,
      \<lparr>trial_index = 2, word = ''RED'', ink = ''RED'', congruency = ''congruent'',
       choice_left = ''RED'', choice_right = ''RED'', correct_answer = ''RED''\<rparr>,
      \<lparr>trial_index = 3, word = ''RED'', ink = ''RED'', congruency = ''congruent'',
       choice_left = ''RED'', choice_right = ''RED'', correct_answer = ''RED''\<rparr>]"

definition restarted_state :: state where
  "restarted_state =
     running_state
       \<lparr>trials := restart_trials,
        timers := [(437, sample_trials ! 0), (468, restart_trials ! 0)],
        draws := 22\<rparr>"

section \<open>Properties\<close>

subsection \<open>Doubles\<close>

lemma pow2_powr: "pow2 k = 2 powr (real_of_int k)"
  by (simp add: pow2_def powr_int)

lemma pow2_pos: "0 < pow2 k"
  by (simp add: pow2_powr)

lemma pow2_add: "pow2 (a + b) = pow2 a * pow2 b"
  by (simp add: pow2_powr powr_add)

lemma pow2_mono: "a \<le> b \<Longrightarrow> pow2 a \<le> pow2 b"
  by (simp add: pow2_powr)

lemma pow2_nat: "0 \<le> k \<Longrightarrow> pow2 k = real_of_int (2 ^ nat k)"
  by (simp add: pow2_def)

lemma round_even_int: "round_even (real_of_int z) = z"
  by (simp add: round_even_def)

lemma round_even_nearest: "\<bar>real_of_int (round_even y) - y\<bar> \<le> 1 / 2"
  unfolding round_even_def Let_def by (auto; linarith)


lemma ulp_pos: "0 < ulp x"
  by (simp add: ulp_def pow2_pos)


lemma double_round_error: "\<bar>double_round x - x\<bar> \<le> ulp x / 2"
proof (cases "x = 0")
  case True
  then show ?thesis using ulp_pos [of x] by (simp add: double_round_def)
next
  case False
  let ?u = "ulp x"
  have u: "0 < ?u" by (rule ulp_pos)
  have "double_round x - x = (real_of_int (round_even (x / ?u)) - x / ?u) * ?u"
    using False u by (simp add: double_round_def field_simps)
  then have "\<bar>double_round x - x\<bar> = \<bar>real_of_int (round_even (x / ?u)) - x / ?u\<bar> * ?u"
    using u by (simp add: abs_mult)
  also have "\<dots> \<le> 1 / 2 * ?u"
    using round_even_nearest [of "x / ?u"] u by (intro mult_right_mono) simp_all
  finally show ?thesis by simp
qed

text \<open>The last place of a number that is not subnormal.\<close>

lemma ulp_normal:
  assumes "pow2 (- 1022) \<le> \<bar>x\<bar>"
  shows "ulp x \<le> \<bar>x\<bar> * pow2 (- 52)"
proof -
  have pos: "0 < \<bar>x\<bar>" using assms pow2_pos [of "- 1022"] by linarith
  have "2 powr real_of_int (- 1022) \<le> \<bar>x\<bar>" using assms by (simp only: pow2_powr)
  then have "real_of_int (- 1022) \<le> log 2 \<bar>x\<bar>"
    using pos by (simp add: le_log_iff)
  then have "- 1022 \<le> \<lfloor>log 2 \<bar>x\<bar>\<rfloor>" by (simp add: le_floor_iff)
  then have "max \<lfloor>log 2 \<bar>x\<bar>\<rfloor> (- 1022) = \<lfloor>log 2 \<bar>x\<bar>\<rfloor>" by (rule max_absorb1)
  then have "ulp x = pow2 (\<lfloor>log 2 \<bar>x\<bar>\<rfloor> + (- 52))" by (simp add: ulp_def)
  also have "\<dots> = pow2 \<lfloor>log 2 \<bar>x\<bar>\<rfloor> * pow2 (- 52)" by (rule pow2_add)
  also have "\<dots> \<le> \<bar>x\<bar> * pow2 (- 52)"
  proof (rule mult_right_mono)
    have "2 powr real_of_int \<lfloor>log 2 \<bar>x\<bar>\<rfloor> \<le> 2 powr log 2 \<bar>x\<bar>"
      by (simp only: powr_le_cancel_iff) simp
    then show "pow2 \<lfloor>log 2 \<bar>x\<bar>\<rfloor> \<le> \<bar>x\<bar>" using pos by (simp add: pow2_powr)
    show "0 \<le> pow2 (- 52)" using pow2_pos [of "- 52"] by simp
  qed
  finally show ?thesis .
qed

text \<open>A number with a significand of at most 53 bits is a double.\<close>

lemma double_round_exact:
  assumes x: "x = real_of_int m * pow2 j" and m: "\<bar>m\<bar> < 2 ^ 53" and j: "- 1074 \<le> j"
  shows "double_round x = x"
proof (cases "x = 0")
  case True
  then show ?thesis by (simp add: double_round_def)
next
  case False
  define k where "k = max \<lfloor>log 2 \<bar>x\<bar>\<rfloor> (- 1022) - 52"
  have u: "ulp x = pow2 k" by (simp add: ulp_def k_def)
  have pos: "0 < \<bar>x\<bar>" using False by simp
  have "\<bar>x\<bar> = real_of_int \<bar>m\<bar> * pow2 j"
    using pow2_pos [of j] by (simp add: x abs_mult)
  also have "\<dots> < 2 ^ 53 * pow2 j"
  proof (rule mult_strict_right_mono)
    have "real_of_int \<bar>m\<bar> < real_of_int (2 ^ 53)" using m by (simp only: of_int_less_iff)
    then show "real_of_int \<bar>m\<bar> < 2 ^ 53" by simp
    show "0 < pow2 j" by (rule pow2_pos)
  qed
  also have "\<dots> = pow2 (53 + j)" by (simp only: pow2_add) (simp add: pow2_def)
  finally have "\<bar>x\<bar> < 2 powr real_of_int (53 + j)" by (simp only: pow2_powr)
  then have "log 2 \<bar>x\<bar> < real_of_int (53 + j)" using pos by (simp add: log_less_iff)
  then have "\<lfloor>log 2 \<bar>x\<bar>\<rfloor> < 53 + j" by (simp add: floor_less_iff)
  then have kj: "k \<le> j" using j by (simp add: k_def)
  have "pow2 j = pow2 (k + (j - k))" by simp
  also have "\<dots> = pow2 k * pow2 (j - k)" by (rule pow2_add)
  also have "pow2 (j - k) = real_of_int (2 ^ nat (j - k))" using kj by (simp add: pow2_nat)
  finally have pj: "pow2 j = pow2 k * real_of_int (2 ^ nat (j - k))" .
  have "x / pow2 k = real_of_int (m * 2 ^ nat (j - k))"
    using pow2_pos [of k] by (simp add: x pj)
  then have "round_even (x / ulp x) = m * 2 ^ nat (j - k)"
    by (simp only: u round_even_int)
  then have "double_round x = real_of_int (m * 2 ^ nat (j - k)) * pow2 k"
    using False by (simp add: double_round_def u)
  also have "\<dots> = x" by (simp add: x pj)
  finally show ?thesis .
qed

lemma double_round_int: "\<bar>n\<bar> < 2 ^ 53 \<Longrightarrow> double_round (real_of_int n) = real_of_int n"
  using double_round_exact [of "real_of_int n" n 0] by (simp add: pow2_def)

lemma double_round_half: "\<bar>n\<bar> < 2 ^ 53 \<Longrightarrow> double_round (real_of_int n / 2) = real_of_int n / 2"
  using double_round_exact [of "real_of_int n / 2" n "- 1"] by (simp add: pow2_def)

text \<open>The double nearest to a number whose binary exponent is known.\<close>

lemma ulp_eval:
  assumes "pow2 k \<le> \<bar>x\<bar>" "\<bar>x\<bar> < pow2 (k + 1)"
  shows "ulp x = pow2 (max k (- 1022) - 52)"
proof -
  have pos: "0 < \<bar>x\<bar>" using assms(1) pow2_pos [of k] by linarith
  have "2 powr real_of_int k \<le> \<bar>x\<bar> \<and> \<bar>x\<bar> < 2 powr (real_of_int k + 1)"
    using assms by (simp add: pow2_powr)
  then have "\<lfloor>log 2 \<bar>x\<bar>\<rfloor> = k" using pos by (simp add: floor_log_eq_powr_iff)
  then show ?thesis by (simp add: ulp_def)
qed

lemma double_round_eval:
  assumes "pow2 k \<le> \<bar>x\<bar>" "\<bar>x\<bar> < pow2 (k + 1)" "- 1022 \<le> k"
  shows "double_round x = real_of_int (round_even (x / pow2 (k - 52))) * pow2 (k - 52)"
proof -
  have "x \<noteq> 0" using assms(1) pow2_pos [of k] by auto
  moreover have "ulp x = pow2 (k - 52)" using ulp_eval [OF assms(1,2)] assms(3) by (simp add: max_def)
  ultimately show ?thesis by (simp add: double_round_def)
qed

text \<open>The accuracy that the summary shows for 23 correct answers of 40 is 57%: the
  quotient and the product are rounded, and the product is below 57.5.\<close>

lemma div_23_40: "double_div 23 40 = 5179139571476070 / 2 ^ 53"
  unfolding double_div_def
  by (subst double_round_eval [where k = "- 1"]) (simp_all add: pow2_def round_even_def Let_def)

lemma mul_23_40: "double_mul (double_div 23 40) 100 = 8092405580431359 / 2 ^ 47"
  unfolding div_23_40 double_mul_def
  by (subst double_round_eval [where k = 5]) (simp_all add: pow2_def round_even_def Let_def)

subsection \<open>Random draws stay in range\<close>

lemma Math_random_range: "0 \<le> Math_random rnd k \<and> Math_random rnd k < 1"
  by (simp add: Math_random_def frac_lt_1)

lemma random_index_less: "0 < m \<Longrightarrow> random_index rnd k m < m"
proof -
  assume m: "0 < m"
  have "Math_random rnd k * real m < 1 * real m"
    using Math_random_range [of rnd k] m by (intro mult_strict_right_mono) auto
  then have "\<lfloor>Math_random rnd k * real m\<rfloor> < int m"
    by (simp add: floor_less_iff)
  then show ?thesis
    using m unfolding random_index_def by linarith
qed

subsection \<open>The generator\<close>



lemma redraw_loop_result:
  "redraw_loop rnd a b k = Some y \<Longrightarrow> fst y \<noteq> a \<and> k \<le> snd y"
proof (rule redraw_loop.raw_induct [where P = "\<lambda>rnd a b k y. fst y \<noteq> a \<and> k \<le> snd y"])
  fix f rnd a b k y
  assume IH: "\<And>rnd a b k y. f rnd a b k = Some y \<Longrightarrow> fst y \<noteq> a \<and> k \<le> snd y"
    and step: "(if b = a then f rnd a (random_color_name rnd k) (Suc k) else Some (b, k)) = Some y"
  show "fst y \<noteq> a \<and> k \<le> snd y"
  proof (cases "b = a")
    case True
    with step have "f rnd a (random_color_name rnd k) (Suc k) = Some y" by simp
    from IH [OF this] show ?thesis by simp
  next
    case False
    with step show ?thesis by auto
  qed
qed

lemma redraw_loop_differs:
  "redraw_loop rnd a b k = Some (b', k') \<Longrightarrow> b' \<noteq> a"
  using redraw_loop_result [of rnd a b k "(b', k')"] by simp

lemma redraw_loop_returns:
  "random_color_name rnd j \<noteq> a \<Longrightarrow> k \<le> j \<Longrightarrow> \<exists>b' k'. redraw_loop rnd a b k = Some (b', k')"
proof (induction "Suc j - k" arbitrary: b k)
  case 0
  then show ?case by simp
next
  case (Suc d)
  show ?case
  proof (cases "b = a")
    case False
    then show ?thesis by (subst redraw_loop.simps) simp
  next
    case True
    show ?thesis
    proof (cases "k = j")
      case True
      with Suc.prems \<open>b = a\<close> show ?thesis
        by (subst redraw_loop.simps, simp, subst redraw_loop.simps, simp)
    next
      case False
      with Suc have "\<exists>b' k'. redraw_loop rnd a (random_color_name rnd k) (Suc k) = Some (b', k')"
        by (intro Suc.hyps(1)) auto
      with \<open>b = a\<close> show ?thesis by (subst redraw_loop.simps) simp
    qed
  qed
qed

lemma shuffle_pair:
  "shuffle rnd [w, c] k = (opts, k') \<Longrightarrow> (opts = [w, c] \<or> opts = [c, w]) \<and> k' = Suc k"
proof -
  have "random_index rnd k 2 < 2" by (rule random_index_less) simp
  then have "random_index rnd k 2 = 0 \<or> random_index rnd k 2 = 1" by auto
  moreover assume "shuffle rnd [w, c] k = (opts, k')"
  ultimately show ?thesis
    by (auto simp: shuffle_def Let_def numeral_2_eq_2)
qed

lemma pickTwo_differs:
  "pickTwoDifferentColorNames rnd k = Some ((a, b), k') \<Longrightarrow> a \<noteq> b"
  by (auto simp: pickTwoDifferentColorNames_def Let_def split: option.splits dest: redraw_loop_differs)

lemma pickTwo_returns:
  assumes "unstuck rnd"
  shows "\<exists>a b k'. pickTwoDifferentColorNames rnd k = Some ((a, b), k')"
proof -
  from assms obtain j where j: "k < j" "random_color_name rnd j \<noteq> random_color_name rnd k"
    unfolding unstuck_def by blast
  show ?thesis
  proof (cases "j = Suc k")
    case True
    with j show ?thesis
      by (simp add: pickTwoDifferentColorNames_def Let_def redraw_loop.simps)
  next
    case False
    with j have "Suc (Suc k) \<le> j" by simp
    from redraw_loop_returns [OF j(2) this, of "random_color_name rnd (Suc k)"]
    obtain b' k' where
      "redraw_loop rnd (random_color_name rnd k) (random_color_name rnd (Suc k)) (Suc (Suc k))
        = Some (b', k')" by blast
    then show ?thesis by (simp add: pickTwoDifferentColorNames_def Let_def)
  qed
qed

lemma generate_trial_shape:
  assumes "generate_trial rnd rate i k = Some (t, k')"
  shows "(congruency t = ''congruent'' \<longleftrightarrow> word t = ink t) \<and> correct_answer t = ink t
    \<and> {#choice_left t, choice_right t#} = {#word t, ink t#} \<and> trial_index t = i + 1"
proof -
  from assms obtain w c k1 opts k2 where
    d: "draw_word_ink rnd rate k = Some ((w, c), k1)" and
    s: "shuffle rnd [w, c] k1 = (opts, k2)" and
    t: "t = \<lparr>trial_index = i + 1, word = w, ink = c,
                      congruency = (if w = c then ''congruent'' else ''incongruent''),
                      choice_left = opts ! 0, choice_right = opts ! 1,
                      correct_answer = c\<rparr>"
    by (auto simp: generate_trial_def split: option.splits prod.splits)
  from shuffle_pair [OF s] have "opts = [w, c] \<or> opts = [c, w]" by simp
  with t show ?thesis by auto
qed

lemma generate_trial_incongruent:
  assumes "generate_trial rnd rate i k = Some (t, k')" and "lt_rate (Math_random rnd k) rate"
  shows "word t \<noteq> ink t"
  using assms
  by (auto simp: generate_trial_def draw_word_ink_def split: option.splits prod.splits
      dest: pickTwo_differs)

lemma generate_trial_congruent:
  assumes "generate_trial rnd rate i k = Some (t, k')" and "\<not> lt_rate (Math_random rnd k) rate"
  shows "word t = ink t"
  using assms
  by (auto simp: generate_trial_def draw_word_ink_def Let_def split: option.splits prod.splits)

lemma generate_trial_returns:
  assumes "unstuck rnd"
  shows "\<exists>t k'. generate_trial rnd rate i k = Some (t, k')"
proof (cases "lt_rate (Math_random rnd k) rate")
  case True
  from pickTwo_returns [OF assms, of "Suc k"] obtain a b k1 where
    "pickTwoDifferentColorNames rnd (Suc k) = Some ((a, b), k1)" by blast
  with True show ?thesis
    by (simp add: generate_trial_def draw_word_ink_def split: prod.splits)
next
  case False
  then show ?thesis
    by (simp add: generate_trial_def draw_word_ink_def Let_def split: prod.splits)
qed

lemma generate_trial_never_stuck:
  assumes "\<not> lt_rate (Math_random rnd k) rate"
  shows "\<exists>t k'. generate_trial rnd rate i k = Some (t, k')"
  using assms by (simp add: generate_trial_def draw_word_ink_def Let_def split: prod.splits)

lemma generate_loop_result:
  "generate_loop rnd n rate i acc k = Some (ts, k') \<Longrightarrow>
     \<exists>new. ts = acc @ new \<and> length new = (case n of None \<Rightarrow> 0 | Some m \<Rightarrow> nat (m - int i))
       \<and> (\<forall>j < length new. generated rnd rate (i + j) (new ! j))"
proof (induction rnd n rate i acc k rule: generate_loop.induct)
  case (1 rnd n rate i acc k)
  show ?case
  proof (cases "lt_count i n")
    case False
    with "1.prems" have "ts = acc" by (simp add: generate_loop.simps)
    moreover from False have "(case n of None \<Rightarrow> 0 | Some m \<Rightarrow> nat (m - int i)) = 0"
      by (auto simp: lt_count_def split: option.splits)
    ultimately show ?thesis by simp
  next
    case True
    with "1.prems" obtain t k1 where
      g: "generate_trial rnd rate i k = Some (t, k1)" and
      r: "generate_loop rnd n rate (Suc i) (acc @ [t]) k1 = Some (ts, k')"
      by (subst (asm) generate_loop.simps) (auto split: option.splits)
    from "1.IH" [OF True g refl r] obtain new where
      new: "ts = (acc @ [t]) @ new"
        "length new = (case n of None \<Rightarrow> 0 | Some m \<Rightarrow> nat (m - int (Suc i)))"
        "\<forall>j < length new. generated rnd rate (Suc i + j) (new ! j)"
      by blast
    from True obtain m where m: "n = Some m" "int i < m"
      by (auto simp: lt_count_def split: option.splits)
    have "ts = acc @ (t # new)" using new(1) by simp
    moreover have "length (t # new) = (case n of None \<Rightarrow> 0 | Some m \<Rightarrow> nat (m - int i))"
      using new(2) m by simp
    moreover have "\<forall>j < length (t # new). generated rnd rate (i + j) ((t # new) ! j)"
    proof (intro allI impI)
      fix j assume "j < length (t # new)"
      then show "generated rnd rate (i + j) ((t # new) ! j)"
        using new(3) g by (cases j) (auto simp: generated_def)
    qed
    ultimately show ?thesis by blast
  qed
qed


lemma cycle_draw: "Math_random cycle_rnd k = real (3 * k mod 8) / 8"
proof -
  have "real (3 * k mod 8) < 8"
    by (metis of_nat_less_iff of_nat_numeral mod_less_divisor zero_less_numeral)
  then show ?thesis by (simp add: Math_random_def cycle_rnd_def frac_eq)
qed

lemma cycle_index: "random_index cycle_rnd k m = (3 * k mod 8) * m div 8"
proof -
  have "real (3 * k mod 8) / 8 * real m = real ((3 * k mod 8) * m) / real 8" by simp
  moreover have "\<lfloor>real ((3 * k mod 8) * m) / real 8\<rfloor> = int ((3 * k mod 8) * m div 8)"
    by (rule floor_divide_of_nat_eq)
  ultimately show ?thesis by (simp add: random_index_def cycle_draw)
qed

lemma cycle_color: "random_color_name cycle_rnd k = name (COLORS ! ((3 * k mod 8) div 2))"
proof -
  have "length COLORS = 4" by (simp add: COLORS_def)
  moreover have "(3 * k mod 8) * 4 div 8 = (3 * k mod 8) div 2" by presburger
  ultimately show ?thesis by (simp add: random_color_name_def cycle_index)
qed

lemma unstuck_cycle: "unstuck cycle_rnd"
  unfolding unstuck_def
proof
  fix k :: nat
  define m where "m = k mod 8"
  have A: "3 * k mod 8 = 3 * m mod 8"
    by (simp add: m_def mod_mult_right_eq)
  have "3 * Suc k mod 8 = (3 * (Suc k mod 8)) mod 8"
    by (simp only: mod_mult_right_eq)
  also have "Suc k mod 8 = Suc m mod 8"
    by (simp add: m_def mod_Suc_eq)
  finally have B: "3 * Suc k mod 8 = 3 * (Suc m mod 8) mod 8" .
  have "m < 8" by (simp add: m_def)
  then have "m = 0 \<or> m = 1 \<or> m = 2 \<or> m = 3 \<or> m = 4 \<or> m = 5 \<or> m = 6 \<or> m = 7"
    by arith
  then have "random_color_name cycle_rnd (Suc k) \<noteq> random_color_name cycle_rnd k"
    unfolding cycle_color A B by (elim disjE) (simp_all add: COLORS_def)
  then show "\<exists>j>k. random_color_name cycle_rnd j \<noteq> random_color_name cycle_rnd k"
    by blast
qed

lemma generateTrials_result:
  assumes "generateTrials rnd n rate k = Some (ts, k')"
  shows "length ts = (case n of None \<Rightarrow> 0 | Some m \<Rightarrow> nat m)"
    and "t \<in> set ts \<Longrightarrow> \<exists>i. generated rnd rate i t"
proof -
  from assms have "generate_loop rnd n rate 0 [] k = Some (ts, k')"
    by (simp add: generateTrials_def)
  from generate_loop_result [OF this]
  have len: "length ts = (case n of None \<Rightarrow> 0 | Some m \<Rightarrow> nat (m - int 0))"
    and gen: "\<forall>j < length ts. generated rnd rate (0 + j) (ts ! j)"
    by auto
  from len show "length ts = (case n of None \<Rightarrow> 0 | Some m \<Rightarrow> nat m)"
    by (simp split: option.splits)
  show "\<exists>i. generated rnd rate i t" if "t \<in> set ts"
    using that gen by (auto simp: in_set_conv_nth)
qed

lemma generate_loop_returns:
  assumes "\<And>i k. \<exists>t k'. generate_trial rnd rate i k = Some (t, k')"
  shows "\<exists>ts k'. generate_loop rnd n rate i acc k = Some (ts, k')"
  using assms
proof (induction rnd n rate i acc k rule: generate_loop.induct)
  case (1 rnd n rate i acc k)
  show ?case
  proof (cases "lt_count i n")
    case False
    then show ?thesis by (simp add: generate_loop.simps)
  next
    case True
    from "1.prems" obtain t k1 where g: "generate_trial rnd rate i k = Some (t, k1)" by blast
    from "1.IH" [OF True g refl "1.prems"] obtain ts k' where
      "generate_loop rnd n rate (Suc i) (acc @ [t]) k1 = Some (ts, k')" by blast
    with True g show ?thesis by (subst generate_loop.simps) simp
  qed
qed

lemma generate_loop_step:
  "lt_count i n \<Longrightarrow>
     generate_loop rnd n rate i acc k =
       (case generate_trial rnd rate i k of
          None \<Rightarrow> None
        | Some (t, k') \<Rightarrow> generate_loop rnd n rate (Suc i) (acc @ [t]) k')"
  by (subst generate_loop.simps) simp

lemma generate_loop_stop:
  "\<not> lt_count i n \<Longrightarrow> generate_loop rnd n rate i acc k = Some (acc, k)"
  by (subst generate_loop.simps) simp

lemma redraw_loop_stop: "b \<noteq> a \<Longrightarrow> redraw_loop rnd a b k = Some (b, k)"
  by (subst redraw_loop.simps) simp

lemma redraw_loop_again:
  "redraw_loop rnd a a k = redraw_loop rnd a (random_color_name rnd k) (Suc k)"
  by (subst redraw_loop.simps) simp

lemmas generator_eval =
  generateTrials_def generate_loop_step generate_loop_stop lt_count_def generate_trial_def
  draw_word_ink_def lt_rate_def pickTwoDifferentColorNames_def redraw_loop_stop redraw_loop_again
  shuffle_def Let_def

lemmas cycle_eval = cycle_draw cycle_color cycle_index COLORS_def


lemma rate_one_selects: "1 \<le> p \<Longrightarrow> lt_rate (Math_random rnd k) (Some p)"
  using Math_random_range [of rnd k] by (simp add: lt_rate_def)

lemma rate_none_selects: "p \<le> 0 \<Longrightarrow> \<not> lt_rate (Math_random rnd k) (Some p)"
  "\<not> lt_rate (Math_random rnd k) None"
  using Math_random_range [of rnd k] by (simp_all add: lt_rate_def)

lemma generated_incongruent:
  "generated rnd (Some p) i t \<Longrightarrow> 1 \<le> p \<Longrightarrow> word t \<noteq> ink t"
  unfolding generated_def using generate_trial_incongruent rate_one_selects by blast

lemma generateTrials_returns:
  "unstuck rnd \<Longrightarrow> \<exists>ts k'. generateTrials rnd n rate k = Some (ts, k')"
  unfolding generateTrials_def
  by (rule generate_loop_returns) (rule generate_trial_returns)

text \<open>
  Claim C3. Every trial that \<open>generateTrials\<close> returns, for any count and any rate, has
  \<open>congruency = 'congruent'\<close> exactly when its word is its ink, has the ink as its
  correct answer, and has the word and the ink as its two choices, as a multiset.
\<close>

theorem generated_trial_invariants:
  assumes "generateTrials rnd n incongruentRate k = Some (ts, k')" and "t \<in> set ts"
  shows "(congruency t = ''congruent'' \<longleftrightarrow> word t = ink t) \<and> correct_answer t = ink t
    \<and> {#choice_left t, choice_right t#} = {#word t, ink t#}"
proof -
  from generateTrials_result(2) [OF assms] obtain i j j' where
    "generate_trial rnd incongruentRate i j = Some (t, j')"
    unfolding generated_def by blast
  from generate_trial_shape [OF this] show ?thesis by simp
qed

theorem generated_trial_invariants_witness:
  "generateTrials cycle_rnd (Some 3) (Some (1 / 2)) 0 = Some (sample_trials, 10)
   \<and> sample_trials ! 0 \<in> set sample_trials
   \<and> (congruency (sample_trials ! 0) = ''congruent'' \<longleftrightarrow>
        word (sample_trials ! 0) = ink (sample_trials ! 0))
   \<and> correct_answer (sample_trials ! 0) = ink (sample_trials ! 0)
   \<and> {#choice_left (sample_trials ! 0), choice_right (sample_trials ! 0)#}
       = {#word (sample_trials ! 0), ink (sample_trials ! 0)#}"
proof -
  have e: "generateTrials cycle_rnd (Some 3) (Some (1 / 2)) 0 = Some (sample_trials, 10)"
    by (simp add: generator_eval cycle_eval sample_trials_def)
  have m: "sample_trials ! 0 \<in> set sample_trials"
    by (simp add: sample_trials_def)
  from generated_trial_invariants [OF e m] e m show ?thesis by blast
qed

text \<open>
  Claim C4. \<open>pickTwoDifferentColorNames\<close> returns two different names; a trial whose
  Bernoulli draw selects incongruent has a word that is not its ink; with a count of 3 and
  a rate of 1.0 the generator returns exactly 3 trials, each with a word that is not its
  ink, and it does return on every random source that never repeats one colour for ever.
\<close>

theorem incongruent_trials_differ:
  "(pickTwoDifferentColorNames rnd k0 = Some ((a, b), k1) \<longrightarrow> a \<noteq> b)
   \<and> (generate_trial rnd incongruentRate i k = Some (t, k2)
        \<and> lt_rate (Math_random rnd k) incongruentRate \<longrightarrow> word t \<noteq> ink t)
   \<and> (generateTrials rnd (Some 3) (Some 1) j = Some (ts, k3)
        \<longrightarrow> length ts = 3 \<and> (\<forall>t \<in> set ts. word t \<noteq> ink t))
   \<and> (unstuck rnd \<longrightarrow> (\<exists>ts k'. generateTrials rnd (Some 3) (Some 1) j = Some (ts, k')))"
proof (intro conjI impI)
  assume "pickTwoDifferentColorNames rnd k0 = Some ((a, b), k1)"
  then show "a \<noteq> b" by (rule pickTwo_differs)
next
  assume "generate_trial rnd incongruentRate i k = Some (t, k2)
    \<and> lt_rate (Math_random rnd k) incongruentRate"
  then show "word t \<noteq> ink t" using generate_trial_incongruent by blast
next
  assume g: "generateTrials rnd (Some 3) (Some 1) j = Some (ts, k3)"
  from generateTrials_result(1) [OF g] show "length ts = 3" by simp
  show "\<forall>t \<in> set ts. word t \<noteq> ink t"
  proof
    fix t assume "t \<in> set ts"
    from generateTrials_result(2) [OF g this] obtain i where "generated rnd (Some 1) i t" ..
    then show "word t \<noteq> ink t" by (rule generated_incongruent) simp
  qed
next
  assume "unstuck rnd"
  then show "\<exists>ts k'. generateTrials rnd (Some 3) (Some 1) j = Some (ts, k')"
    by (rule generateTrials_returns)
qed

theorem incongruent_trials_differ_witness:
  "pickTwoDifferentColorNames cycle_rnd 1 = Some ((''BLUE'', ''YELLOW''), 3)
   \<and> ''BLUE'' \<noteq> ''YELLOW''
   \<and> generate_trial cycle_rnd (Some (1 / 2)) 0 0 = Some (sample_trials ! 0, 4)
   \<and> lt_rate (Math_random cycle_rnd 0) (Some (1 / 2))
   \<and> word (sample_trials ! 0) \<noteq> ink (sample_trials ! 0)
   \<and> generateTrials cycle_rnd (Some 3) (Some 1) 0 = Some (incongruent_trials, 12)
   \<and> length incongruent_trials = 3
   \<and> list_all (\<lambda>t. word t \<noteq> ink t) incongruent_trials
   \<and> unstuck cycle_rnd
   \<and> (\<exists>ts k'. generateTrials cycle_rnd (Some 3) (Some 1) 0 = Some (ts, k'))"
proof -
  have p: "pickTwoDifferentColorNames cycle_rnd 1 = Some ((''BLUE'', ''YELLOW''), 3)"
    by (simp add: generator_eval cycle_eval)
  have g: "generate_trial cycle_rnd (Some (1 / 2)) 0 0 = Some (sample_trials ! 0, 4)"
    by (simp add: generator_eval cycle_eval sample_trials_def)
  have l: "lt_rate (Math_random cycle_rnd 0) (Some (1 / 2))"
    by (simp add: lt_rate_def cycle_draw)
  have e: "generateTrials cycle_rnd (Some 3) (Some 1) 0 = Some (incongruent_trials, 12)"
    by (simp add: generator_eval cycle_eval incongruent_trials_def)
  note u = unstuck_cycle
  from incongruent_trials_differ
    [of cycle_rnd 1 "''BLUE''" "''YELLOW''" 3 "Some (1 / 2)" 0 0 "sample_trials ! 0" 4 0
      incongruent_trials 12]
  have "''BLUE'' \<noteq> ''YELLOW''" "word (sample_trials ! 0) \<noteq> ink (sample_trials ! 0)"
    "length incongruent_trials = 3" "\<forall>t \<in> set incongruent_trials. word t \<noteq> ink t"
    "\<exists>ts k'. generateTrials cycle_rnd (Some 3) (Some 1) 0 = Some (ts, k')"
    using p g l e u by blast+
  then show ?thesis using p g l e u by (simp add: list_all_iff)
qed

subsection \<open>Summary statistics\<close>

lemma digits_small: "n < 10 \<Longrightarrow> digits n = [''0123456789'' ! n]"
  by (subst digits.simps) simp

lemma digits_big: "\<not> n < 10 \<Longrightarrow> digits n = digits (n div 10) @ [''0123456789'' ! (n mod 10)]"
  by (subst digits.simps) simp

lemmas String_eval = String_of_int_def digits_small digits_big Math_round_def

text \<open>Sums of integers are exact below \<open>2^53\<close>.\<close>

lemma foldl_double_add:
  "\<bar>a\<bar> + sum_list (map abs vs) < 2 ^ 53 \<Longrightarrow>
     foldl (\<lambda>s v. double_add s (real_of_int v)) (real_of_int a) vs = real_of_int (a + sum_list vs)"
proof (induction vs arbitrary: a)
  case Nil
  then show ?case by simp
next
  case (Cons v vs)
  have "\<bar>a + v\<bar> < 2 ^ 53" using Cons.prems sum_list_abs [of vs] by simp
  then have "double_add (real_of_int a) (real_of_int v) = real_of_int (a + v)"
    using double_round_int [of "a + v"] by (simp add: double_add_def)
  moreover have "\<bar>a + v\<bar> + sum_list (map abs vs) < 2 ^ 53" using Cons.prems by simp
  ultimately show ?case using Cons.IH [of "a + v"] by (simp add: add.assoc)
qed

lemma mean_eq:
  "vs \<noteq> [] \<Longrightarrow> sum_list (map abs vs) < 2 ^ 53 \<Longrightarrow>
     mean vs = Some (double_div (real_of_int (sum_list vs)) (real (length vs)))"
  using foldl_double_add [of 0 vs] by (simp add: mean_def)

lemma median_odd:
  "odd (length vs) \<Longrightarrow> median vs = Some (real_of_int (sort vs ! (length vs div 2)))"
  by (auto simp: median_def Let_def odd_iff_mod_2_eq_one)

lemma median_even:
  assumes "vs \<noteq> []" and "even (length vs)"
    and "\<bar>sort vs ! (length vs div 2 - 1) + sort vs ! (length vs div 2)\<bar> < 2 ^ 53"
  shows "median vs
    = Some (real_of_int (sort vs ! (length vs div 2 - 1) + sort vs ! (length vs div 2)) / 2)"
proof -
  let ?a = "sort vs ! (length vs div 2 - 1)" and ?b = "sort vs ! (length vs div 2)"
  have "double_add (real_of_int ?a) (real_of_int ?b) = real_of_int (?a + ?b)"
    using double_round_int [OF assms(3)] by (simp add: double_add_def)
  then have "double_div (double_add (real_of_int ?a) (real_of_int ?b)) 2 = real_of_int (?a + ?b) / 2"
    using double_round_half [OF assms(3)] by (simp add: double_div_def)
  then show ?thesis
    using assms(1,2) by (simp add: median_def Let_def even_iff_mod_2_eq_zero)
qed

lemma foldl_count:
  "a + length rs < 2 ^ 53 \<Longrightarrow>
     foldl (\<lambda>s r. double_add s (if P r then 1 else 0)) (real a) rs
       = real (a + length (filter P rs))"
proof (induction rs arbitrary: a)
  case Nil
  then show ?case by simp
next
  case (Cons r rs)
  have "\<bar>int (Suc a)\<bar> < 2 ^ 53" "\<bar>int a\<bar> < 2 ^ 53" using Cons.prems by simp_all
  then have "double_round (real_of_int (int (Suc a))) = real_of_int (int (Suc a))"
    "double_round (real_of_int (int a)) = real_of_int (int a)"
    by (simp_all only: double_round_int)
  then have step: "double_add (real a) (if P r then 1 else 0) = real (if P r then Suc a else a)"
    by (simp add: double_add_def add.commute)
  have "(if P r then Suc a else a) + length rs < 2 ^ 53" using Cons.prems by simp
  from Cons.IH [OF this] step show ?case by simp
qed

lemma acc_eq:
  "rs \<noteq> [] \<Longrightarrow> length rs < 2 ^ 53 \<Longrightarrow>
     acc_of rs = double_div (real (length (filter (\<lambda>r. truthy (get_prop r ''correct'')) rs)))
                            (real (length rs))"
  using foldl_count [of 0 rs "\<lambda>r. truthy (get_prop r ''correct'')"] by (simp add: acc_of_def)

lemma finish_results [simp]: "results (finish s) = results s"
  by (simp add: finish_def Let_def show_screen_def stopRecognition_def)

lemma finish_texts:
  "mTrials (finish s) = String_of_int (int (length (results s)))"
  "mAcc (finish s) = (if results s \<noteq> []
      then String_of_int (Math_round (double_mul (acc_of (results s)) 100)) @ ''%'' else dash)"
  "mMean (finish s) = (if rts_of (results s) \<noteq> [] then rounded_ms (mean (rts_of (results s))) else dash)"
  "mMedian (finish s) = (if rts_of (results s) \<noteq> [] then rounded_ms (median (rts_of (results s))) else dash)"
  by (simp_all add: finish_def Let_def show_screen_def stopRecognition_def)

text \<open>Small integers and halves are doubles.\<close>

lemma double_numeral: "(numeral k :: int) < 2 ^ 53 \<Longrightarrow> double_round (numeral k) = numeral k"
  using double_round_int [of "numeral k"] by simp

lemma double_small: "double_round 1 = 1" "double_round (1 / 2) = 1 / 2"
  using double_round_int [of 1] double_round_half [of 1] by simp_all


text \<open>
  Claim C8. With no record, \<open>finish\<close> shows the dash for accuracy, mean and median (and
  \<open>mean\<close> and \<open>median\<close> of no value are \<open>NaN\<close>), not a zero. With records, the
  accuracy is the quotient of the number of correct records and their number, as the
  division of doubles returns it: the double nearest to the exact quotient; the page
  shows \<open>Math.round\<close> of its product with 100, again a product of doubles. The mean is
  the quotient of the sum of the reaction times and their number, the median is the
  middle value in ascending order for an odd count and the average of the two middle
  values for an even one (sums below \<open>2^53\<close> are exact, and an array has fewer than
  \<open>2^32\<close> elements). The records \<open>{rt: 100, correct: 1}\<close> and \<open>{rt: 300, correct: 0}\<close>
  show \<open>200 ms\<close>, \<open>200 ms\<close> and \<open>50%\<close>; 23 correct records of 40 show \<open>57%\<close>.
\<close>

theorem summary_metrics:
  "(results s0 = [] \<longrightarrow>
      mAcc (finish s0) = dash \<and> mMean (finish s0) = dash \<and> mMedian (finish s0) = dash)
   \<and> dash \<noteq> ''0'' \<and> dash \<noteq> ''0%'' \<and> dash \<noteq> ''0 ms'' \<and> mean [] = None \<and> median [] = None
   \<and> (results s \<noteq> [] \<and> length (results s) < 2 ^ 53 \<longrightarrow>
        acc_of (results s)
          = double_div (real (length (filter (\<lambda>r. truthy (get_prop r ''correct'')) (results s))))
                       (real (length (results s)))
        \<and> \<bar>acc_of (results s)
             - real (length (filter (\<lambda>r. truthy (get_prop r ''correct'')) (results s)))
               / real (length (results s))\<bar>
           \<le> ulp (real (length (filter (\<lambda>r. truthy (get_prop r ''correct'')) (results s)))
                   / real (length (results s))) / 2)
   \<and> (results s \<noteq> [] \<longrightarrow>
        mAcc (finish s) = String_of_int (Math_round (double_mul (acc_of (results s)) 100)) @ ''%'')
   \<and> (rts_of (results s) \<noteq> [] \<longrightarrow>
        mMean (finish s) = rounded_ms (mean (rts_of (results s)))
        \<and> mMedian (finish s) = rounded_ms (median (rts_of (results s))))
   \<and> (vs \<noteq> [] \<and> sum_list (map abs vs) < 2 ^ 53 \<longrightarrow>
        mean vs = Some (double_div (real_of_int (sum_list vs)) (real (length vs)))
        \<and> (\<forall>m. mean vs = Some m \<longrightarrow>
              \<bar>m - real_of_int (sum_list vs) / real (length vs)\<bar>
                \<le> ulp (real_of_int (sum_list vs) / real (length vs)) / 2))
   \<and> (odd (length us) \<longrightarrow> median us = Some (real_of_int (sort us ! (length us div 2))))
   \<and> (vs \<noteq> [] \<and> even (length vs)
        \<and> \<bar>sort vs ! (length vs div 2 - 1) + sort vs ! (length vs div 2)\<bar> < 2 ^ 53 \<longrightarrow>
        median vs = Some (real_of_int (sort vs ! (length vs div 2 - 1)
                                        + sort vs ! (length vs div 2)) / 2))
   \<and> (results s = [r1, r2]
        \<and> get_prop r1 ''rt_ms'' = Some (Num 100) \<and> get_prop r1 ''correct'' = Some (Num 1)
        \<and> get_prop r2 ''rt_ms'' = Some (Num 300) \<and> get_prop r2 ''correct'' = Some (Num 0)
        \<longrightarrow> mMean (finish s) = ''200 ms'' \<and> mMedian (finish s) = ''200 ms''
            \<and> mAcc (finish s) = ''50%'' \<and> mTrials (finish s) = ''2'')
   \<and> (length (results s1) = 40
        \<and> length (filter (\<lambda>r. truthy (get_prop r ''correct'')) (results s1)) = 23
        \<longrightarrow> mAcc (finish s1) = ''57%'')"
proof -
  have empty: "mAcc (finish s0) = dash \<and> mMean (finish s0) = dash \<and> mMedian (finish s0) = dash"
    if "results s0 = []"
    using that by (simp add: finish_texts rts_of_def finite_numbers_def)
  have sentinel: "dash \<noteq> ''0'' \<and> dash \<noteq> ''0%'' \<and> dash \<noteq> ''0 ms''
      \<and> mean [] = None \<and> median [] = None"
    by (simp add: dash_def mean_def median_def)
  have acc: "acc_of (results s)
          = double_div (real (length (filter (\<lambda>r. truthy (get_prop r ''correct'')) (results s))))
                       (real (length (results s)))
        \<and> \<bar>acc_of (results s)
             - real (length (filter (\<lambda>r. truthy (get_prop r ''correct'')) (results s)))
               / real (length (results s))\<bar>
           \<le> ulp (real (length (filter (\<lambda>r. truthy (get_prop r ''correct'')) (results s)))
                   / real (length (results s))) / 2"
    if "results s \<noteq> [] \<and> length (results s) < 2 ^ 53"
    using that acc_eq [of "results s"] double_round_error by (simp add: double_div_def)
  have pct: "mAcc (finish s) = String_of_int (Math_round (double_mul (acc_of (results s)) 100)) @ ''%''"
    if "results s \<noteq> []"
    using that by (simp add: finish_texts)
  have shown: "mMean (finish s) = rounded_ms (mean (rts_of (results s)))
        \<and> mMedian (finish s) = rounded_ms (median (rts_of (results s)))"
    if "rts_of (results s) \<noteq> []"
    using that by (simp add: finish_texts)
  have avg: "mean vs = Some (double_div (real_of_int (sum_list vs)) (real (length vs)))
        \<and> (\<forall>m. mean vs = Some m \<longrightarrow>
              \<bar>m - real_of_int (sum_list vs) / real (length vs)\<bar>
                \<le> ulp (real_of_int (sum_list vs) / real (length vs)) / 2)"
    if "vs \<noteq> [] \<and> sum_list (map abs vs) < 2 ^ 53"
    using that mean_eq [of vs] double_round_error by (simp add: double_div_def)
  have example: "mMean (finish s) = ''200 ms'' \<and> mMedian (finish s) = ''200 ms''
            \<and> mAcc (finish s) = ''50%'' \<and> mTrials (finish s) = ''2''"
    if "results s = [r1, r2]
        \<and> get_prop r1 ''rt_ms'' = Some (Num 100) \<and> get_prop r1 ''correct'' = Some (Num 1)
        \<and> get_prop r2 ''rt_ms'' = Some (Num 300) \<and> get_prop r2 ''correct'' = Some (Num 0)"
  proof -
    from that have rts: "rts_of (results s) = [100, 300]"
      by (simp add: rts_of_def finite_numbers_def)
    from that have a: "acc_of (results s) = 1 / 2"
      by (simp add: acc_of_def truthy_def double_add_def double_div_def double_small double_numeral)
    have m: "median [100, 300] = Some 200" "mean [100, 300] = Some 200"
      by (simp_all add: median_def mean_def double_add_def double_div_def double_small double_numeral)
    have h: "double_mul (1 / 2) 100 = 50" by (simp add: double_mul_def double_small double_numeral)
    have t: "String_of_int (Math_round 200) = ''200''"
      "String_of_int (Math_round 50) = ''50''" "String_of_int 2 = ''2''"
      by (simp_all add: String_eval)
    from that have ne: "results s \<noteq> []" "length (results s) = 2" by simp_all
    show ?thesis
      unfolding finish_texts rts a ne(2) m rounded_ms_def h using ne(1) by (simp add: t)
  qed
  have rounded: "mAcc (finish s1) = ''57%''"
    if "length (results s1) = 40
        \<and> length (filter (\<lambda>r. truthy (get_prop r ''correct'')) (results s1)) = 23"
  proof -
    from that have ne: "results s1 \<noteq> []" "length (results s1) < 2 ^ 53" by auto
    from acc_eq [OF ne] that have a: "acc_of (results s1) = double_div 23 40" by simp
    have t: "String_of_int (Math_round (8092405580431359 / 2 ^ 47)) = ''57''"
      by (simp add: String_eval)
    show ?thesis unfolding finish_texts a mul_23_40 using ne(1) by (simp only: t) simp
  qed
  from empty sentinel acc pct shown avg example rounded median_odd [of us] median_even [of vs]
  show ?thesis by blast
qed


theorem summary_metrics_witness:
  "results init_state = []
   \<and> mAcc (finish init_state) = dash \<and> mMean (finish init_state) = dash
   \<and> mMedian (finish init_state) = dash
   \<and> results (init_state\<lparr>results := sample_records\<rparr>) = sample_records
   \<and> sample_records \<noteq> [] \<and> length sample_records < 2 ^ 53
   \<and> rts_of sample_records = [100, 300]
   \<and> get_prop (sample_records ! 0) ''correct'' = Some (Num 1)
   \<and> get_prop (sample_records ! 1) ''correct'' = Some (Num 0)
   \<and> acc_of sample_records = 1 / 2
   \<and> mMean (finish (init_state\<lparr>results := sample_records\<rparr>)) = ''200 ms''
   \<and> mMedian (finish (init_state\<lparr>results := sample_records\<rparr>)) = ''200 ms''
   \<and> mAcc (finish (init_state\<lparr>results := sample_records\<rparr>)) = ''50%''
   \<and> mTrials (finish (init_state\<lparr>results := sample_records\<rparr>)) = ''2''
   \<and> odd (length [300, 100, 200 :: int]) \<and> median [300, 100, 200] = Some 200
   \<and> even (length [100, 300 :: int]) \<and> \<bar>sort [100, 300 :: int] ! 0 + sort [100, 300] ! 1\<bar> < 2 ^ 53
   \<and> median [100, 300] = Some 200
   \<and> sum_list (map abs [100, 300 :: int]) < 2 ^ 53 \<and> mean [100, 300] = Some 200
   \<and> length (replicate 23 (sample_records ! 0) @ replicate 17 (sample_records ! 1)) = 40
   \<and> length (filter (\<lambda>r. truthy (get_prop r ''correct''))
        (replicate 23 (sample_records ! 0) @ replicate 17 (sample_records ! 1))) = 23
   \<and> mAcc (finish (init_state\<lparr>results :=
        replicate 23 (sample_records ! 0) @ replicate 17 (sample_records ! 1)\<rparr>)) = ''57%''"
proof -
  let ?s = "init_state\<lparr>results := sample_records\<rparr>"
  let ?many = "replicate 23 (sample_records ! 0) @ replicate 17 (sample_records ! 1)"
  let ?s1 = "init_state\<lparr>results := ?many\<rparr>"
  have r0: "results init_state = []" by (simp add: init_state_def)
  have r: "results ?s = [sample_records ! 0, sample_records ! 1]"
    by (simp add: sample_records_def)
  have p: "get_prop (sample_records ! 0) ''rt_ms'' = Some (Num 100)"
    "get_prop (sample_records ! 0) ''correct'' = Some (Num 1)"
    "get_prop (sample_records ! 1) ''rt_ms'' = Some (Num 300)"
    "get_prop (sample_records ! 1) ''correct'' = Some (Num 0)"
    by (simp_all add: sample_records_def get_prop_def response_record_def sample_trials_def)
  have ne: "sample_records \<noteq> []" "length sample_records < 2 ^ 53"
    by (simp_all add: sample_records_def)
  have rts: "rts_of sample_records = [100, 300]"
    by (simp add: rts_of_def finite_numbers_def sample_records_def get_prop_def
        response_record_def)
  have par: "odd (length [300, 100, 200 :: int])" "even (length [100, 300 :: int])"
    "[100, 300 :: int] \<noteq> []" "sum_list (map abs [100, 300 :: int]) < 2 ^ 53"
    "\<bar>sort [100, 300 :: int] ! 0 + sort [100, 300] ! 1\<bar> < 2 ^ 53"
    by simp_all
  have many: "length ?many = 40"
    "length (filter (\<lambda>r. truthy (get_prop r ''correct'')) ?many) = 23"
    using p(2,4) by (simp_all del: One_nat_def add: truthy_def)
  note inst = summary_metrics [of init_state ?s "[100, 300]" "[300, 100, 200]"
      "sample_records ! 0" "sample_records ! 1" ?s1]
  from inst r0 have a: "mAcc (finish init_state) = dash \<and> mMean (finish init_state) = dash
      \<and> mMedian (finish init_state) = dash" by blast
  from inst r p have b: "mMean (finish ?s) = ''200 ms'' \<and> mMedian (finish ?s) = ''200 ms''
      \<and> mAcc (finish ?s) = ''50%'' \<and> mTrials (finish ?s) = ''2''" by blast
  from inst ne have "acc_of (results ?s)
          = double_div (real (length (filter (\<lambda>r. truthy (get_prop r ''correct'')) (results ?s))))
                       (real (length (results ?s)))" by simp
  then have c: "acc_of sample_records = 1 / 2"
    by (simp add: sample_records_def get_prop_def response_record_def truthy_def
        sample_trials_def double_div_def double_small)
  from inst par have d: "median [300, 100, 200] = Some 200" "median [100, 300] = Some 200"
    by simp_all
  from inst par have "mean [100, 300] = Some (double_div (real_of_int (sum_list [100, 300]))
      (real (length [100, 300 :: int])))" by blast
  then have e: "mean [100, 300] = Some 200"
    by (simp add: double_div_def double_numeral)
  from inst many have f: "mAcc (finish ?s1) = ''57%''" by simp
  from r0 a ne rts p b c par d e many f show ?thesis by simp
qed

subsection \<open>CSV\<close>


lemma foldl_join: "foldl (\<lambda>acc x. acc @ sep @ x) a ys = a @ concat (map (\<lambda>x. sep @ x) ys)"
  by (induction ys arbitrary: a) auto

lemma join_simps:
  "join sep [] = []" "join sep [x] = x"
  "join sep (x # y # ys) = x @ sep @ join sep (y # ys)"
  by (simp_all add: join_def foldl_join)

lemma add_str: "foldr add_char s ((f # fs) # rs) = ((s @ f) # fs) # rs"
  by (induction s) (auto simp: add_char_def)

lemma unquoted_plain:
  "\<forall>c \<in> set s. c \<noteq> CHR '','' \<and> c \<noteq> CHR 0x0A \<Longrightarrow>
     unquoted (s @ rest) = foldr add_char s (unquoted rest)"
  by (induction s) auto

lemma delimited_modes:
  "delimited rest \<Longrightarrow> unquoted rest = at_start rest \<and> after_quote rest = at_start rest"
  by (cases rest) (auto simp: delimited_def)

lemma quoted_doubled:
  "quoted (double_quotes s @ CHR 0x22 # rest) = foldr add_char s (after_quote rest)"
  by (induction s) (auto simp: double_quotes_def)

lemma at_start_field:
  assumes "delimited rest"
  shows "at_start (quote_field s @ rest) = foldr add_char s (at_start rest)"
proof (cases "needs_quotes s")
  case True
  then show ?thesis
    using quoted_doubled [of s rest] delimited_modes [OF assms]
    by (simp add: quote_field_def)
next
  case False
  then have plain: "\<forall>c \<in> set s. c \<noteq> CHR 0x22 \<and> c \<noteq> CHR '','' \<and> c \<noteq> CHR 0x0A"
    by (auto simp: needs_quotes_def)
  show ?thesis
  proof (cases s)
    case Nil
    then show ?thesis using False by (simp add: quote_field_def)
  next
    case (Cons c cs)
    with plain have "at_start (s @ rest) = add_char c (unquoted (cs @ rest))" by simp
    also have "unquoted (cs @ rest) = foldr add_char cs (unquoted rest)"
      using plain Cons by (intro unquoted_plain) simp
    finally show ?thesis
      using False Cons delimited_modes [OF assms] by (simp add: quote_field_def)
  qed
qed

lemma at_start_row:
  assumes "fs \<noteq> []" and "at_start rest = ([] # gs) # t" and "delimited rest"
  shows "at_start (join '','' (map quote_field fs) @ rest) = (fs @ gs) # t"
  using assms(1)
proof (induction fs rule: list_nonempty_induct)
  case (single f)
  then show ?case
    using at_start_field [OF assms(3), of f] assms(2) by (simp add: join_simps add_str)
next
  case (cons f fs)
  then obtain g gs' where fs: "fs = g # gs'" by (cases fs) auto
  let ?more = "join '','' (map quote_field fs) @ rest"
  have d: "delimited (CHR '','' # ?more)" by (simp add: delimited_def)
  have "join '','' (map quote_field (f # fs)) @ rest = quote_field f @ (CHR '','' # ?more)"
    by (simp add: fs join_simps)
  then have "at_start (join '','' (map quote_field (f # fs)) @ rest)
      = foldr add_char f (at_start (CHR '','' # ?more))"
    using at_start_field [OF d, of f] by simp
  also have "at_start (CHR '','' # ?more) = new_field ((fs @ gs) # t)"
    using cons.IH by simp
  also have "\<dots> = ([] # fs @ gs) # t" by (simp add: new_field_def)
  finally show ?case by (simp add: add_str)
qed

lemma at_start_table:
  assumes "tab \<noteq> []" and "\<forall>fs \<in> set tab. fs \<noteq> []"
  shows "at_start (join [CHR 0x0A] (map (\<lambda>fs. join '','' (map quote_field fs)) tab)) = tab"
  using assms
proof (induction tab rule: list_nonempty_induct)
  case (single fs)
  then have "fs \<noteq> []" by simp
  from at_start_row [OF this, of "[]" "[]" "[]"] show ?case
    by (simp add: join_simps delimited_def)
next
  case (cons fs tab)
  then obtain r rs where tab: "tab = r # rs" by (cases tab) auto
  let ?line = "\<lambda>fs. join '','' (map quote_field fs)"
  let ?more = "join [CHR 0x0A] (map ?line tab)"
  from cons have IH: "at_start ?more = tab" and ne: "fs \<noteq> []" by simp_all
  have "join [CHR 0x0A] (map ?line (fs # tab)) = ?line fs @ (CHR 0x0A # ?more)"
    by (simp add: tab join_simps)
  moreover have "at_start (CHR 0x0A # ?more) = ([] # []) # tab"
    using IH by (simp add: new_record_def)
  moreover have "delimited (CHR 0x0A # ?more)" by (simp add: delimited_def)
  ultimately show ?case using at_start_row [OF ne, of "CHR 0x0A # ?more" "[]" tab] by simp
qed

lemma esc_quote_field: "esc v = quote_field (text_of v)"
proof (cases v)
  case None
  then show ?thesis by (simp add: esc_def quote_field_def text_of_def needs_quotes_def)
next
  case (Some x)
  then show ?thesis by (simp add: esc_def quote_field_def text_of_def Let_def)
qed

lemma toCSV_table:
  assumes "rows \<noteq> []"
  shows "toCSV rows = join [CHR 0x0A] (map (\<lambda>fs. join '','' (map quote_field fs)) (csv_table rows))"
proof -
  have "(\<lambda>h. esc (Some (Str h))) = quote_field"
    by (rule ext) (simp add: esc_quote_field text_of_def String_of_def)
  then show ?thesis
    using assms by (simp add: toCSV_def csv_table_def Let_def esc_quote_field comp_def)
qed

text \<open>
  Claim C9. For a non-empty list of records whose first record has a field, \<open>toCSV\<close>
  writes the field names of the first record and then one row for each record with the
  values under those names in that order, the rows joined by line feeds and the fields by
  commas; a field that holds a comma, a double quote or a line feed is written in double
  quotes with its quotes doubled, any other field as it is; and an RFC 4180 reader reads
  back from the text every name and every value as it was.
\<close>

theorem csv_round_trip:
  assumes "rows \<noteq> []" and "hd rows \<noteq> []"
  shows "toCSV rows
           = join [CHR 0x0A] (map (\<lambda>fs. join '','' (map quote_field fs)) (csv_table rows))
    \<and> (\<forall>v. esc v = quote_field (text_of v))
    \<and> (\<forall>s. needs_quotes s \<longleftrightarrow> CHR '','' \<in> set s \<or> CHR 0x22 \<in> set s \<or> CHR 0x0A \<in> set s)
    \<and> read_csv (toCSV rows) = csv_table rows
    \<and> length (csv_table rows) = length rows + 1"
proof -
  have "csv_table rows \<noteq> []" by (simp add: csv_table_def)
  moreover from assms have "\<forall>fs \<in> set (csv_table rows). fs \<noteq> []"
    by (auto simp: csv_table_def)
  ultimately have "at_start (join [CHR 0x0A]
      (map (\<lambda>fs. join '','' (map quote_field fs)) (csv_table rows))) = csv_table rows"
    by (rule at_start_table)
  then have "read_csv (toCSV rows) = csv_table rows"
    by (simp add: read_csv_def toCSV_table [OF assms(1)])
  moreover have "\<forall>s. needs_quotes s \<longleftrightarrow> CHR '','' \<in> set s \<or> CHR 0x22 \<in> set s \<or> CHR 0x0A \<in> set s"
    by (auto simp: needs_quotes_def)
  ultimately show ?thesis
    using toCSV_table [OF assms(1)] esc_quote_field by (simp add: csv_table_def)
qed

theorem csv_round_trip_witness:
  "tricky_records \<noteq> [] \<and> hd tricky_records \<noteq> []
   \<and> toCSV tricky_records
       = ''trial,notes'' @ [CHR 0x0A]
         @ ''1,'' @ [CHR 0x22, CHR ''a'', CHR '','', CHR 0x22, CHR 0x22, CHR ''b'', CHR 0x22, CHR 0x0A]
         @ ''2,'' @ [CHR 0x22, CHR ''c'', CHR 0x0A, CHR ''d'', CHR 0x22]
   \<and> read_csv (toCSV tricky_records)
       = [[''trial'', ''notes''],
          [''1'', [CHR ''a'', CHR '','', CHR 0x22, CHR ''b'']],
          [''2'', [CHR ''c'', CHR 0x0A, CHR ''d'']]]"
proof -
  have ne: "tricky_records \<noteq> []" "hd tricky_records \<noteq> []"
    by (simp_all add: tricky_records_def)
  have tab: "csv_table tricky_records
       = [[''trial'', ''notes''],
          [''1'', [CHR ''a'', CHR '','', CHR 0x22, CHR ''b'']],
          [''2'', [CHR ''c'', CHR 0x0A, CHR ''d'']]]"
    by (simp add: csv_table_def tricky_records_def text_of_def get_prop_def String_of_def
        String_of_int_def digits_small)
  from csv_round_trip [OF ne] have
    w: "toCSV tricky_records
           = join [CHR 0x0A] (map (\<lambda>fs. join '','' (map quote_field fs)) (csv_table tricky_records))"
    and r: "read_csv (toCSV tricky_records) = csv_table tricky_records"
    by blast+
  from w have "toCSV tricky_records
       = ''trial,notes'' @ [CHR 0x0A]
         @ ''1,'' @ [CHR 0x22, CHR ''a'', CHR '','', CHR 0x22, CHR 0x22, CHR ''b'', CHR 0x22, CHR 0x0A]
         @ ''2,'' @ [CHR 0x22, CHR ''c'', CHR 0x0A, CHR ''d'', CHR 0x22]"
    unfolding tab by (simp add: join_simps quote_field_def needs_quotes_def double_quotes_def)
  with ne r tab show ?thesis by simp
qed

subsection \<open>The flow\<close>


lemma presentTrial_current:
  "idx s < length (trials s) \<Longrightarrow>
     presentTrial rnd s = Some (schedule_stimulus rnd (trials s ! idx s) s)"
  by (subst presentTrial.simps) simp

lemma presentTrial_finish:
  "\<not> idx s < length (trials s) \<Longrightarrow> phase s \<noteq> Practice \<Longrightarrow> presentTrial rnd s = Some (finish s)"
  by (subst presentTrial.simps) simp

lemma startPhase_fields:
  "settings (startPhase ph s) = settings s" "draws (startPhase ph s) = draws s"
  "participant (startPhase ph s) = participant s"
  by (simp_all add: startPhase_def)

lemma presentTrial_switch:
  "\<not> idx s < length (trials s) \<Longrightarrow> phase s = Practice \<Longrightarrow>
     presentTrial rnd s =
       (case generateTrials rnd (nTrials (settings s)) (inconRate (settings s)) (draws s) of
          None \<Rightarrow> None
        | Some (ts, k) \<Rightarrow> presentTrial rnd ((startPhase Test s)\<lparr>trials := ts, draws := k\<rparr>))"
  by (subst presentTrial.simps) (simp add: Let_def startPhase_fields)

lemma stopRecognition_eq:
  "stopRecognition s = s\<lparr>listening := listening s \<and> \<not> (rec s \<and> recActive s), recActive := False\<rparr>"
  by (simp add: stopRecognition_def)

lemma schedule_stimulus_eq:
  "schedule_stimulus rnd tr s =
     s\<lparr>answered := False,
       choiceA := \<lparr>disabled = True, dataset_value = []\<rparr>,
       choiceB := \<lparr>disabled = True, dataset_value = []\<rparr>,
       draws := Suc (draws s),
       timers := timers s @ [(250 + random_index rnd (draws s) 250, tr)]\<rparr>"
  by (simp add: schedule_stimulus_def lockChoices_def Let_def)

lemma finish_eq:
  "finish s =
     s\<lparr>listening := listening s \<and> \<not> (rec s \<and> recActive s), recActive := False,
       screen := ScreenDone,
       mTrials := String_of_int (int (length (results s))),
       mAcc := (if length (results s) \<noteq> 0
                then String_of_int (Math_round (double_mul (acc_of (results s)) 100)) @ ''%'' else dash),
       mMean := (if length (rts_of (results s)) \<noteq> 0 then rounded_ms (mean (rts_of (results s)))
                 else dash),
       mMedian := (if length (rts_of (results s)) \<noteq> 0
                   then rounded_ms (median (rts_of (results s))) else dash)\<rparr>"
  by (simp add: finish_def show_screen_def stopRecognition_eq Let_def)

text \<open>The three ways in which \<open>presentTrial\<close> returns.\<close>

lemma presentTrial_cases:
  assumes "presentTrial rnd s = Some s'"
  shows "(idx s < length (trials s) \<and> s' = schedule_stimulus rnd (trials s ! idx s) s)
    \<or> (\<not> idx s < length (trials s) \<and> phase s \<noteq> Practice \<and> s' = finish s)
    \<or> (\<not> idx s < length (trials s) \<and> phase s = Practice \<and>
        (\<exists>ts k. generateTrials rnd (nTrials (settings s)) (inconRate (settings s)) (draws s)
                  = Some (ts, k)
           \<and> (ts \<noteq> [] \<and> s' = schedule_stimulus rnd (ts ! 0)
                                   ((startPhase Test s)\<lparr>trials := ts, draws := k\<rparr>)
               \<or> ts = [] \<and> s' = finish ((startPhase Test s)\<lparr>trials := ts, draws := k\<rparr>))))"
proof (cases "idx s < length (trials s)")
  case True
  with assms show ?thesis by (simp add: presentTrial_current)
next
  case False
  show ?thesis
  proof (cases "phase s = Practice")
    case False
    with \<open>\<not> idx s < length (trials s)\<close> assms show ?thesis by (simp add: presentTrial_finish)
  next
    case True
    with \<open>\<not> idx s < length (trials s)\<close> assms obtain ts k where
      g: "generateTrials rnd (nTrials (settings s)) (inconRate (settings s)) (draws s) = Some (ts, k)"
      and p: "presentTrial rnd ((startPhase Test s)\<lparr>trials := ts, draws := k\<rparr>) = Some s'"
      by (auto simp: presentTrial_switch split: option.splits)
    let ?s1 = "(startPhase Test s)\<lparr>trials := ts, draws := k\<rparr>"
    have f: "idx ?s1 = 0" "trials ?s1 = ts" "phase ?s1 = Test" by (simp_all add: startPhase_def)
    show ?thesis
    proof (cases "ts = []")
      case True
      with p f have "s' = finish ?s1" by (simp add: presentTrial_finish)
      with True g \<open>phase s = Practice\<close> \<open>\<not> idx s < length (trials s)\<close> show ?thesis by blast
    next
      case False
      with p f have "s' = schedule_stimulus rnd (ts ! 0) ?s1" by (simp add: presentTrial_current)
      with False g \<open>phase s = Practice\<close> \<open>\<not> idx s < length (trials s)\<close> show ?thesis by blast
    qed
  qed
qed

lemma presentTrial_returns:
  assumes "unstuck rnd \<or> phase s \<noteq> Practice \<or> idx s < length (trials s)"
  shows "\<exists>s'. presentTrial rnd s = Some s'"
proof (cases "idx s < length (trials s)")
  case True
  then show ?thesis by (simp add: presentTrial_current)
next
  case False
  show ?thesis
  proof (cases "phase s = Practice")
    case False
    with \<open>\<not> idx s < length (trials s)\<close> show ?thesis by (simp add: presentTrial_finish)
  next
    case True
    with assms False have "unstuck rnd" by simp
    from generateTrials_returns [OF this] obtain ts k where
      g: "generateTrials rnd (nTrials (settings s)) (inconRate (settings s)) (draws s) = Some (ts, k)"
      by blast
    let ?s1 = "(startPhase Test s)\<lparr>trials := ts, draws := k\<rparr>"
    have f: "idx ?s1 = 0" "trials ?s1 = ts" "phase ?s1 = Test" by (simp_all add: startPhase_def)
    have "\<exists>s'. presentTrial rnd ?s1 = Some s'"
      using f by (cases "ts = []") (simp_all add: presentTrial_finish presentTrial_current)
    with g True False show ?thesis by (simp add: presentTrial_switch)
  qed
qed

text \<open>What \<open>presentTrial\<close> leaves as it is, and what it does to the latch, the phase and
  the lists.\<close>

lemma presentTrial_frame:
  assumes "presentTrial rnd s = Some s'"
  shows "t0 s' = t0 s" and "participant s' = participant s" and "settings s' = settings s"
    and "rec s' = rec s"
    and "results s' = (if \<not> idx s < length (trials s) \<and> phase s = Practice then [] else results s)"
    and "phase s' = (if \<not> idx s < length (trials s) \<and> phase s = Practice then Test else phase s)"
    and "idx s' = (if \<not> idx s < length (trials s) \<and> phase s = Practice then 0 else idx s)"
    and "phase s \<noteq> Practice \<or> idx s < length (trials s) \<Longrightarrow> trials s' = trials s"
  using presentTrial_cases [OF assms]
  by (auto simp: schedule_stimulus_eq finish_eq startPhase_def)

lemma recordAnswer_current:
  assumes "idx s < length (trials s)"
  shows "recordAnswer rnd chosen now stamp s =
    (case presentTrial rnd
       ((if phase s = Test
         then (stopRecognition s)\<lparr>results := results s
                @ [response_record s (trials s ! idx s) chosen (Math_round (double_sub now (t0 s))) stamp]\<rparr>
         else stopRecognition s)\<lparr>idx := Suc (idx s)\<rparr>) of
       None \<Rightarrow> Diverges | Some s4 \<Rightarrow> Returned s4)"
  using assms
  by (simp add: recordAnswer_def Let_def stopRecognition_eq response_record_def)

lemma recordAnswer_no_trial:
  "\<not> idx s < length (trials s) \<Longrightarrow>
     recordAnswer rnd chosen now stamp s = Threw TypeError (stopRecognition s)"
  by (simp add: recordAnswer_def Let_def stopRecognition_eq)

lemma sample_run_starts: "startTest cycle_rnd sample_form init_state = Some running_state"
  by (simp add: startTest_def sample_form_def init_state_def running_state_def startPhase_def
      show_screen_def generator_eval cycle_eval sample_trials_def presentTrial_current
      schedule_stimulus_eq trim_def is_space_def Let_def)

lemma sample_timer_fires: "timer_fires 0 False 1000 running_state = armed_state"
  by (simp add: timer_fires_def stimulus_shown_def startRecognitionForTrial_def lockChoices_def
      setStimulus_def running_state_def armed_state_def init_state_def sample_trials_def)

subsection \<open>Recording answers\<close>


lemma latched_eq:
  "latched s =
     s\<lparr>answered := True,
       choiceA := (choiceA s)\<lparr>disabled := True\<rparr>, choiceB := (choiceB s)\<lparr>disabled := True\<rparr>,
       listening := listening s \<and> \<not> (rec s \<and> recActive s), recActive := False\<rparr>"
  by (simp add: latched_def stopRecognition_eq lockChoices_def)

lemma latched_fields:
  "phase (latched s) = phase s" "idx (latched s) = idx s" "trials (latched s) = trials s"
  "results (latched s) = results s" "t0 (latched s) = t0 s"
  "participant (latched s) = participant s"
  by (simp_all add: latched_eq)

lemma handle_latched: "answered s \<Longrightarrow> handle rnd e now stamp s = Returned s"
  by (cases e) (simp_all add: handle_def onChoice_def onresult_def Let_def)

text \<open>An event from which the handler obtains no label leaves the state as it is.\<close>

lemma handle_ignored:
  "resolve e s = None \<Longrightarrow>
     handle rnd e now stamp s = Returned s \<or> handle rnd e now stamp s = Threw ReferenceError s"
  by (cases e)
     (auto simp: handle_def onChoice_def onresult_def resolve_def Let_def
       split: option.splits if_splits)

lemma lock_then_latch:
  "(lockChoices True s)\<lparr>answered := True\<rparr> = lockChoices True (s\<lparr>answered := True\<rparr>)"
  by (rule state.equality) (simp_all add: lockChoices_def)

lemma handle_accepted:
  "\<not> answered s \<Longrightarrow> resolve e s = Some v \<Longrightarrow>
     handle rnd e now stamp s = recordAnswer rnd v now stamp (latched s)"
  by (cases e)
     (auto simp: handle_def onChoice_def onresult_def resolve_def Let_def latched_def
       lock_then_latch split: option.splits if_splits)

lemma response_record_participant:
  "participant s' = participant s \<Longrightarrow> response_record s' = response_record s"
  by (intro ext) (simp add: response_record_def)

text \<open>\<open>recordAnswer\<close> with a current trial in the test phase: it returns, with one more
  record.\<close>

lemma recordAnswer_test:
  assumes "idx s < length (trials s)" and "phase s = Test"
  shows "\<exists>s'. recordAnswer rnd chosen now stamp s = Returned s'
    \<and> results s' = results s
        @ [response_record s (trials s ! idx s) chosen (Math_round (double_sub now (t0 s))) stamp]
    \<and> idx s' = Suc (idx s) \<and> phase s' = Test"
proof -
  let ?s3 = "((stopRecognition s)\<lparr>results := results s
    @ [response_record s (trials s ! idx s) chosen (Math_round (double_sub now (t0 s))) stamp]\<rparr>)
      \<lparr>idx := Suc (idx s)\<rparr>"
  have ph: "phase ?s3 = Test" using assms by (simp add: stopRecognition_eq)
  then have "\<exists>s'. presentTrial rnd ?s3 = Some s'" by (intro presentTrial_returns) simp
  then obtain s' where p: "presentTrial rnd ?s3 = Some s'" ..
  from presentTrial_frame(5,6,7) [OF p] ph
  have "results s' = results ?s3" "phase s' = Test" "idx s' = idx ?s3" by simp_all
  then show ?thesis
    using p assms by (simp add: recordAnswer_current stopRecognition_eq)
qed

lemma recordAnswer_other:
  assumes "idx s < length (trials s)" and "phase s \<noteq> Test"
    and "recordAnswer rnd chosen now stamp s = Returned s'"
  shows "results s' = (if phase s = Practice \<and> length (trials s) \<le> Suc (idx s) then []
                       else results s)"
proof -
  let ?s3 = "(stopRecognition s)\<lparr>idx := Suc (idx s)\<rparr>"
  from assms have p: "presentTrial rnd ?s3 = Some s'"
    by (simp add: recordAnswer_current split: option.splits)
  from presentTrial_frame(5) [OF p] show ?thesis
    by (auto simp: stopRecognition_eq)
qed

lemma recordAnswer_returns:
  assumes "idx s < length (trials s)"
    and "phase s \<noteq> Practice \<or> Suc (idx s) < length (trials s) \<or> unstuck rnd"
  shows "\<exists>s'. recordAnswer rnd chosen now stamp s = Returned s'"
proof -
  let ?s3 = "(if phase s = Test
         then (stopRecognition s)\<lparr>results := results s
                @ [response_record s (trials s ! idx s) chosen (Math_round (double_sub now (t0 s))) stamp]\<rparr>
         else stopRecognition s)\<lparr>idx := Suc (idx s)\<rparr>"
  have "phase ?s3 = phase s" "idx ?s3 = Suc (idx s)" "trials ?s3 = trials s"
    by (simp_all add: stopRecognition_eq)
  with assms(2) have "\<exists>s'. presentTrial rnd ?s3 = Some s'"
    by (intro presentTrial_returns) auto
  then show ?thesis using assms(1) by (auto simp: recordAnswer_current)
qed

text \<open>
  Claim C5. With a current trial, \<open>recordAnswer\<close> in the test phase returns with exactly
  one record more at the end of \<open>results\<close>, the record of this answer; in any other
  phase, whenever it returns, no record is added (\<open>results\<close> is as it was, or emptied
  when the last practice trial starts the test phase), and it does return unless the
  generator runs for ever at the start of the test phase.
\<close>

theorem answers_recorded_only_in_test:
  assumes "idx s < length (trials s)"
  shows "(phase s = Test \<longrightarrow>
           (\<exists>s'. recordAnswer rnd chosen now stamp s = Returned s'
              \<and> results s' = results s
                  @ [response_record s (trials s ! idx s) chosen (Math_round (double_sub now (t0 s))) stamp]))
    \<and> (phase s \<noteq> Test \<longrightarrow>
         (\<forall>s'. recordAnswer rnd chosen now stamp s = Returned s' \<longrightarrow>
            results s' = (if phase s = Practice \<and> length (trials s) \<le> Suc (idx s) then []
                          else results s)))
    \<and> (phase s \<noteq> Practice \<or> Suc (idx s) < length (trials s) \<or> unstuck rnd \<longrightarrow>
         (\<exists>s'. recordAnswer rnd chosen now stamp s = Returned s'))"
  using recordAnswer_test [OF assms, of rnd chosen now stamp]
    recordAnswer_other [OF assms, of rnd chosen now stamp]
    recordAnswer_returns [OF assms, of rnd chosen now stamp]
  by blast

theorem answers_recorded_only_in_test_witness:
  "idx armed_state < length (trials armed_state) \<and> phase armed_state = Test
   \<and> (\<exists>s'. recordAnswer cycle_rnd ''YELLOW'' 1400 ''2024-05-01T10:00:00'' armed_state = Returned s'
        \<and> results s' = [response_record armed_state (sample_trials ! 0) ''YELLOW'' 400
                          ''2024-05-01T10:00:00''])
   \<and> idx practice_state < length (trials practice_state) \<and> phase practice_state \<noteq> Test
   \<and> Suc (idx practice_state) < length (trials practice_state)
   \<and> (\<exists>s'. recordAnswer cycle_rnd ''YELLOW'' 1400 ''2024-05-01T10:00:00'' practice_state
              = Returned s' \<and> results s' = [])"
proof -
  have a: "idx armed_state < length (trials armed_state)" "phase armed_state = Test"
    "results armed_state = []" "trials armed_state ! idx armed_state = sample_trials ! 0"
    "t0 armed_state = 1000"
    by (simp_all add: armed_state_def running_state_def init_state_def sample_trials_def)
  have p: "idx practice_state < length (trials practice_state)" "phase practice_state \<noteq> Test"
    "Suc (idx practice_state) < length (trials practice_state)" "results practice_state = []"
    by (simp_all add: practice_state_def armed_state_def running_state_def init_state_def
        sample_trials_def)
  have r: "Math_round (double_sub 1400 1000) = 400"
    by (simp add: Math_round_def double_sub_def double_numeral)
  from answers_recorded_only_in_test [OF a(1), of cycle_rnd "''YELLOW''" 1400
      "''2024-05-01T10:00:00''"] a r
  have one: "\<exists>s'. recordAnswer cycle_rnd ''YELLOW'' 1400 ''2024-05-01T10:00:00'' armed_state
      = Returned s'
        \<and> results s' = [response_record armed_state (sample_trials ! 0) ''YELLOW'' 400
                          ''2024-05-01T10:00:00'']"
    by simp
  from answers_recorded_only_in_test [OF p(1), of cycle_rnd "''YELLOW''" 1400
      "''2024-05-01T10:00:00''"] p
  have two: "\<exists>s'. recordAnswer cycle_rnd ''YELLOW'' 1400 ''2024-05-01T10:00:00'' practice_state
              = Returned s' \<and> results s' = []"
    by (metis Suc_leI not_less_eq_eq)
  from a p one two show ?thesis by blast
qed

subsection \<open>Starting a run\<close>


text \<open>\<open>startTest\<close> returns what \<open>presentTrial\<close> returns on the state with the inputs
  stored, the phase started and the generated batch.\<close>

lemma startTest_eq:
  "startTest rnd f s =
     (case generateTrials rnd (if practiceToggle_checked f then Some 2 else nTrials_value f)
             (inconRate_value f) (draws s) of
        None \<Rightarrow> None
      | Some (ts, k) \<Rightarrow> presentTrial rnd (started f ts k s))"
  by (cases "practiceToggle_checked f")
     (simp_all add: startTest_def Let_def started_def startPhase_def show_screen_def
       split: option.splits)

lemma started_fields:
  "phase (started f ts k s) = (if practiceToggle_checked f then Practice else Test)"
  "idx (started f ts k s) = 0" "trials (started f ts k s) = ts"
  "results (started f ts k s) = []" "screen (started f ts k s) = ScreenTest"
  "nTrials (settings (started f ts k s)) = nTrials_value f"
  "inconRate (settings (started f ts k s)) = inconRate_value f"
  by (simp_all add: started_def)

lemma startTest_cases:
  assumes "startTest rnd f s = Some s'"
  shows "\<exists>ts k.
      generateTrials rnd (if practiceToggle_checked f then Some 2 else nTrials_value f)
        (inconRate_value f) (draws s) = Some (ts, k)
    \<and> presentTrial rnd (started f ts k s) = Some s'"
  using assms by (auto simp: startTest_eq split: option.splits)

lemma startTest_returns:
  assumes "unstuck rnd \<or> inconRate_value f = None \<or> (\<exists>p. inconRate_value f = Some p \<and> p \<le> 0)"
  shows "\<exists>s'. startTest rnd f s = Some s'"
proof -
  let ?n = "if practiceToggle_checked f then Some 2 else nTrials_value f"
  have "\<exists>ts k. generateTrials rnd ?n (inconRate_value f) (draws s) = Some (ts, k)"
  proof (cases "unstuck rnd")
    case True
    then show ?thesis by (rule generateTrials_returns)
  next
    case False
    with assms have "\<And>k. \<not> lt_rate (Math_random rnd k) (inconRate_value f)"
      using rate_none_selects by auto
    then have "\<And>i k. \<exists>t k'. generate_trial rnd (inconRate_value f) i k = Some (t, k')"
      by (rule generate_trial_never_stuck)
    then show ?thesis
      unfolding generateTrials_def by (rule generate_loop_returns)
  qed
  then obtain ts k where
    g: "generateTrials rnd ?n (inconRate_value f) (draws s) = Some (ts, k)" by blast
  from generateTrials_result(1) [OF g]
  have len: "practiceToggle_checked f \<Longrightarrow> length ts = 2" by simp
  have "\<exists>s'. presentTrial rnd (started f ts k s) = Some s'"
    using len by (intro presentTrial_returns) (auto simp: started_fields)
  with g show ?thesis by (simp add: startTest_eq)
qed

text \<open>
  Claim C10. With the practice box checked, \<open>startTest\<close> starts a practice phase of
  exactly two trials whatever the trial count is; the trial count sets the length of the
  batch of the test phase, which is generated when the practice trials are used up, or at
  once when the box is not checked (\<open>NaN\<close> and negative counts give no trial).
\<close>

theorem practice_block_has_two_trials:
  "(practiceToggle_checked f \<and> startTest rnd f s = Some s' \<longrightarrow>
      phase s' = Practice \<and> length (trials s') = 2 \<and> nTrials (settings s') = nTrials_value f)
   \<and> (\<not> practiceToggle_checked g \<and> startTest rnd g u = Some u' \<longrightarrow>
        phase u' = Test
        \<and> length (trials u') = (case nTrials_value g of None \<Rightarrow> 0 | Some m \<Rightarrow> nat m))
   \<and> (phase p = Practice \<and> \<not> idx p < length (trials p) \<and> presentTrial rnd p = Some p' \<longrightarrow>
        phase p' = Test \<and> idx p' = 0 \<and> results p' = []
        \<and> length (trials p') = (case nTrials (settings p) of None \<Rightarrow> 0 | Some m \<Rightarrow> nat m))
   \<and> (unstuck rnd \<longrightarrow>
        (\<exists>s'. startTest rnd f s = Some s') \<and> (\<exists>u'. startTest rnd g u = Some u')
        \<and> (\<exists>p'. presentTrial rnd p = Some p'))"
proof (intro conjI impI)
  assume a: "practiceToggle_checked f \<and> startTest rnd f s = Some s'"
  with startTest_cases [of rnd f s s'] obtain ts k where
    g: "generateTrials rnd (Some 2) (inconRate_value f) (draws s) = Some (ts, k)"
    and p: "presentTrial rnd (started f ts k s) = Some s'"
    by auto
  let ?S = "started f ts k s"
  from a have S: "phase ?S = Practice" "idx ?S = 0" "trials ?S = ts"
      "nTrials (settings ?S) = nTrials_value f"
    by (simp_all add: started_fields)
  from generateTrials_result(1) [OF g] have len: "length ts = 2" by simp
  with S have cur: "idx ?S < length (trials ?S)" by simp
  from presentTrial_frame(6) [OF p] cur S show "phase s' = Practice" by simp
  from presentTrial_frame(8) [OF p] cur S len show "length (trials s') = 2" by simp
  from presentTrial_frame(3) [OF p] S show "nTrials (settings s') = nTrials_value f" by simp
next
  assume a: "\<not> practiceToggle_checked g \<and> startTest rnd g u = Some u'"
  with startTest_cases [of rnd g u u'] obtain ts k where
    g: "generateTrials rnd (nTrials_value g) (inconRate_value g) (draws u) = Some (ts, k)"
    and p: "presentTrial rnd (started g ts k u) = Some u'"
    by auto
  let ?S = "started g ts k u"
  from a have S: "phase ?S = Test" "idx ?S = 0" "trials ?S = ts"
    by (simp_all add: started_fields)
  from presentTrial_frame(6) [OF p] S show "phase u' = Test" by simp
  from presentTrial_frame(8) [OF p] S generateTrials_result(1) [OF g]
  show "length (trials u') = (case nTrials_value g of None \<Rightarrow> 0 | Some m \<Rightarrow> nat m)" by simp
next
  assume a: "phase p = Practice \<and> \<not> idx p < length (trials p) \<and> presentTrial rnd p = Some p'"
  then have p: "presentTrial rnd p = Some p'" by simp
  from presentTrial_frame(5,6,7) [OF p] a
  show "phase p' = Test" "idx p' = 0" "results p' = []" by simp_all
  from presentTrial_cases [OF p] a obtain ts k where
    g: "generateTrials rnd (nTrials (settings p)) (inconRate (settings p)) (draws p) = Some (ts, k)"
    and c: "ts \<noteq> [] \<and> p' = schedule_stimulus rnd (ts ! 0)
                                   ((startPhase Test p)\<lparr>trials := ts, draws := k\<rparr>)
               \<or> ts = [] \<and> p' = finish ((startPhase Test p)\<lparr>trials := ts, draws := k\<rparr>)"
    by auto
  from c have "trials p' = ts"
    by (auto simp: schedule_stimulus_eq finish_eq startPhase_def)
  with generateTrials_result(1) [OF g]
  show "length (trials p') = (case nTrials (settings p) of None \<Rightarrow> 0 | Some m \<Rightarrow> nat m)"
    by simp
next
  assume u: "unstuck rnd"
  then show "\<exists>s'. startTest rnd f s = Some s'" by (intro startTest_returns) simp
  from u show "\<exists>u'. startTest rnd g u = Some u'" by (intro startTest_returns) simp
  from u show "\<exists>p'. presentTrial rnd p = Some p'" by (intro presentTrial_returns) simp
qed

theorem practice_block_has_two_trials_witness:
  "practiceToggle_checked (sample_form\<lparr>practiceToggle_checked := True\<rparr>)
   \<and> nTrials_value (sample_form\<lparr>practiceToggle_checked := True\<rparr>) = Some 3
   \<and> (\<exists>s'. startTest cycle_rnd (sample_form\<lparr>practiceToggle_checked := True\<rparr>) init_state = Some s'
        \<and> phase s' = Practice \<and> length (trials s') = 2 \<and> nTrials (settings s') = Some 3)
   \<and> \<not> practiceToggle_checked sample_form
   \<and> startTest cycle_rnd sample_form init_state = Some running_state
   \<and> phase running_state = Test \<and> length (trials running_state) = 3
   \<and> phase practice_end = Practice \<and> \<not> idx practice_end < length (trials practice_end)
   \<and> nTrials (settings practice_end) = Some 3
   \<and> (\<exists>p'. presentTrial cycle_rnd practice_end = Some p' \<and> phase p' = Test \<and> idx p' = 0
         \<and> results p' = [] \<and> length (trials p') = 3)
   \<and> unstuck cycle_rnd"
proof -
  let ?f = "sample_form\<lparr>practiceToggle_checked := True\<rparr>"
  note inst = practice_block_has_two_trials [of ?f cycle_rnd init_state _ sample_form init_state
      running_state practice_end]
  have f: "practiceToggle_checked ?f" "nTrials_value ?f = Some 3"
    "\<not> practiceToggle_checked sample_form" "nTrials_value sample_form = Some 3"
    by (simp_all add: sample_form_def)
  have e: "phase practice_end = Practice" "\<not> idx practice_end < length (trials practice_end)"
    "nTrials (settings practice_end) = Some 3"
    by (simp_all add: practice_end_def armed_state_def running_state_def init_state_def
        sample_trials_def)
  note u = unstuck_cycle
  from inst u obtain s' p' where
    s: "startTest cycle_rnd ?f init_state = Some s'" and
    p: "presentTrial cycle_rnd practice_end = Some p'" by blast
  from inst [of s'] s f have one: "phase s' = Practice \<and> length (trials s') = 2
    \<and> nTrials (settings s') = Some 3" by simp
  from inst [of s' p'] sample_run_starts f have two: "phase running_state = Test
    \<and> length (trials running_state) = 3" by simp
  from inst [of s' p'] p e have three: "phase p' = Test \<and> idx p' = 0 \<and> results p' = []
    \<and> length (trials p') = 3" by simp
  from f e u sample_run_starts s one two p three show ?thesis by blast
qed



subsection \<open>Arbitration of the two inputs\<close>

text \<open>The labels of a generated trial are colour names, which are not empty.\<close>

lemma random_color_name_nonempty: "random_color_name rnd k \<noteq> []"
proof -
  have "random_index rnd k (length COLORS) < length COLORS"
    by (rule random_index_less) (simp add: COLORS_def)
  then have "random_index rnd k (length COLORS) \<in> {0, 1, 2, 3}"
    by (auto simp: COLORS_def)
  then show ?thesis
    unfolding random_color_name_def by (auto simp: COLORS_def)
qed

lemma redraw_loop_nonempty:
  "redraw_loop rnd a b k = Some y \<Longrightarrow> b \<noteq> [] \<longrightarrow> fst y \<noteq> []"
proof (rule redraw_loop.raw_induct [where P = "\<lambda>rnd a b k y. b \<noteq> [] \<longrightarrow> fst y \<noteq> []"])
  fix f rnd a b k y
  assume IH: "\<And>rnd a b k y. f rnd a b k = Some y \<Longrightarrow> b \<noteq> [] \<longrightarrow> fst y \<noteq> []"
    and step: "(if b = a then f rnd a (random_color_name rnd k) (Suc k) else Some (b, k)) = Some y"
  show "b \<noteq> [] \<longrightarrow> fst y \<noteq> []"
  proof (cases "b = a")
    case True
    with step have "f rnd a (random_color_name rnd k) (Suc k) = Some y" by simp
    from IH [OF this] show ?thesis by (simp add: random_color_name_nonempty)
  next
    case False
    with step show ?thesis by auto
  qed
qed

lemma draw_word_ink_nonempty:
  assumes "draw_word_ink rnd rate k = Some ((w, c), k1)"
  shows "w \<noteq> [] \<and> c \<noteq> []"
proof (cases "lt_rate (Math_random rnd k) rate")
  case True
  with assms obtain y where
    r: "redraw_loop rnd (random_color_name rnd (Suc k)) (random_color_name rnd (Suc (Suc k)))
          (Suc (Suc (Suc k))) = Some y"
    and w: "w = random_color_name rnd (Suc k)" and c: "c = fst y"
    by (auto simp: draw_word_ink_def pickTwoDifferentColorNames_def Let_def split: option.splits)
  from redraw_loop_nonempty [OF r] have "fst y \<noteq> []" by (simp add: random_color_name_nonempty)
  with w c show ?thesis by (simp add: random_color_name_nonempty)
next
  case False
  with assms show ?thesis
    by (auto simp: draw_word_ink_def Let_def random_color_name_nonempty)
qed

lemma generated_labels:
  assumes "generateTrials rnd n rate k = Some (ts, k')" and "t \<in> set ts"
  shows "choice_left t \<noteq> [] \<and> choice_right t \<noteq> []"
proof -
  from generateTrials_result(2) [OF assms] obtain i j j' where
    g: "generate_trial rnd rate i j = Some (t, j')"
    unfolding generated_def by blast
  then obtain w c k1 opts k2 where
    d: "draw_word_ink rnd rate j = Some ((w, c), k1)" and
    s: "shuffle rnd [w, c] k1 = (opts, k2)" and
    t: "choice_left t = opts ! 0" "choice_right t = opts ! 1"
    by (auto simp: generate_trial_def split: option.splits prod.splits)
  from shuffle_pair [OF s] have "opts = [w, c] \<or> opts = [c, w]" by simp
  with t draw_word_ink_nonempty [OF d] show ?thesis by auto
qed


lemma run_events_latched: "answered s \<Longrightarrow> run_events rnd es s = Some s"
  by (induction es) (auto simp: handle_latched)

lemma run_events_ignored:
  "\<forall>x \<in> set pre. resolve (fst x) s = None \<Longrightarrow>
     run_events rnd (pre @ es) s = run_events rnd es s"
proof (induction pre)
  case Nil
  then show ?case by simp
next
  case (Cons x pre)
  obtain e now stamp where x: "x = (e, now, stamp)" by (cases x)
  with Cons.prems have "resolve e s = None" by simp
  from handle_ignored [OF this, of rnd now stamp] Cons show ?case
    by (auto simp: x)
qed


text \<open>An answer accepted in the test phase: one record more, with the label of the
  event and the index of the current trial.\<close>

lemma handle_accepted_test:
  assumes "\<not> answered s" and "resolve e s = Some v" and "phase s = Test"
    and "idx s < length (trials s)"
  shows "\<exists>s' r. handle rnd e now stamp s = Returned s' \<and> results s' = results s @ [r]
    \<and> get_prop r ''response'' = Some (Str v)
    \<and> get_prop r ''trial'' = Some (Num (int (trial_index (trials s ! idx s))))
    \<and> get_prop r ''rt_ms'' = Some (Num (Math_round (double_sub now (t0 s))))
    \<and> idx s' = Suc (idx s) \<and> phase s' = Test
    \<and> (Suc (idx s) = length (trials s) \<longrightarrow> answered s')"
proof -
  let ?r = "response_record (latched s) (trials s ! idx s) v (Math_round (double_sub now (t0 s))) stamp"
  let ?s3 = "((stopRecognition (latched s))\<lparr>results := results s @ [?r]\<rparr>)\<lparr>idx := Suc (idx s)\<rparr>"
  have f: "phase ?s3 = Test" "idx ?s3 = Suc (idx s)" "trials ?s3 = trials s"
    "results ?s3 = results s @ [?r]" "answered ?s3"
    using assms by (simp_all add: stopRecognition_eq latched_eq)
  then have "\<exists>s'. presentTrial rnd ?s3 = Some s'" by (intro presentTrial_returns) simp
  then obtain s' where p: "presentTrial rnd ?s3 = Some s'" ..
  from presentTrial_frame(5,6,7) [OF p] f
  have g: "results s' = results s @ [?r]" "phase s' = Test" "idx s' = Suc (idx s)" by simp_all
  have last: "answered s'" if "Suc (idx s) = length (trials s)"
  proof -
    from that f have "\<not> idx ?s3 < length (trials ?s3)" "phase ?s3 \<noteq> Practice" by simp_all
    with p have "s' = finish ?s3" by (simp add: presentTrial_finish)
    with f(5) show ?thesis by (simp add: finish_eq)
  qed
  have "handle rnd e now stamp s = Returned s'"
    using assms p
    by (simp add: handle_accepted recordAnswer_current latched_fields)
  moreover have "get_prop ?r ''response'' = Some (Str v)"
    "get_prop ?r ''trial'' = Some (Num (int (trial_index (trials s ! idx s))))"
    "get_prop ?r ''rt_ms'' = Some (Num (Math_round (double_sub now (t0 s))))"
    by (simp_all add: get_prop_def response_record_def)
  ultimately have "handle rnd e now stamp s = Returned s' \<and> results s' = results s @ [?r]
    \<and> get_prop ?r ''response'' = Some (Str v)
    \<and> get_prop ?r ''trial'' = Some (Num (int (trial_index (trials s ! idx s))))
    \<and> get_prop ?r ''rt_ms'' = Some (Num (Math_round (double_sub now (t0 s))))
    \<and> idx s' = Suc (idx s) \<and> phase s' = Test
    \<and> (Suc (idx s) = length (trials s) \<longrightarrow> answered s')"
    using g last by simp
  then show ?thesis by (intro exI)
qed


text \<open>\<open>recordAnswer\<close> ends with a call of \<open>presentTrial\<close>, on a state with the latch,
  the recogniser and the stimulus time as they were.\<close>

lemma recordAnswer_then_presentTrial:
  assumes "recordAnswer rnd chosen now stamp s = Returned s'" and "idx s < length (trials s)"
  shows "\<exists>s3. presentTrial rnd s3 = Some s' \<and> answered s3 = answered s \<and> rec s3 = rec s
    \<and> t0 s3 = t0 s"
proof (cases "phase s = Test")
  case True
  let ?s3 = "(stopRecognition s)\<lparr>results := results s
                @ [response_record s (trials s ! idx s) chosen
                     (Math_round (double_sub now (t0 s))) stamp], idx := Suc (idx s)\<rparr>"
  from assms True have "presentTrial rnd ?s3 = Some s'"
    by (simp add: recordAnswer_current split: option.splits)
  moreover have "answered ?s3 = answered s" "rec ?s3 = rec s" "t0 ?s3 = t0 s"
    by (simp_all add: stopRecognition_eq)
  ultimately show ?thesis by blast
next
  case False
  let ?s3 = "(stopRecognition s)\<lparr>idx := Suc (idx s)\<rparr>"
  from assms False have "presentTrial rnd ?s3 = Some s'"
    by (simp add: recordAnswer_current split: option.splits)
  moreover have "answered ?s3 = answered s" "rec ?s3 = rec s" "t0 ?s3 = t0 s"
    by (simp_all add: stopRecognition_eq)
  ultimately show ?thesis by blast
qed


lemma recordAnswer_rec:
  assumes "recordAnswer rnd chosen now stamp s = Returned s'" and "idx s < length (trials s)"
  shows "rec s' = rec s"
  using recordAnswer_then_presentTrial [OF assms] presentTrial_frame(4) by force



text \<open>The handler of the recogniser never accepts an answer: it returns at the latch or
  throws, and the state is as it was.\<close>

lemma onresult_no_effect:
  "onresult transcript s = Returned s \<or> onresult transcript s = Threw ReferenceError s"
  by (simp add: onresult_def)

lemma speech_no_effect:
  "handle rnd (SpeechResult transcript) now stamp s = Returned s
    \<or> handle rnd (SpeechResult transcript) now stamp s = Threw ReferenceError s"
  by (simp add: handle_def onresult_def)






subsection \<open>Abort, restart and pending timers\<close>

lemma button_both:
  "b\<lparr>dataset_value := x, disabled := d\<rparr> = \<lparr>disabled = d, dataset_value = x\<rparr>"
  by (cases b) simp

lemma timer_fires_eq:
  "i < length (timers u) \<Longrightarrow>
     timer_fires i start_throws now u =
       startRecognitionForTrial start_throws
         (u\<lparr>timers := take i (timers u) @ drop (Suc i) (timers u),
            choiceA := \<lparr>disabled = False, dataset_value = choice_left (snd (timers u ! i))\<rparr>,
            choiceB := \<lparr>disabled = False, dataset_value = choice_right (snd (timers u ! i))\<rparr>,
            t0 := now\<rparr>)"
  by (simp add: timer_fires_def stimulus_shown_def lockChoices_def setStimulus_def button_both)

lemma startRecognition_frame:
  "phase (startRecognitionForTrial th s) = phase s"
  "trials (startRecognitionForTrial th s) = trials s"
  "results (startRecognitionForTrial th s) = results s"
  "idx (startRecognitionForTrial th s) = idx s"
  "answered (startRecognitionForTrial th s) = answered s"
  "t0 (startRecognitionForTrial th s) = t0 s"
  "choiceA (startRecognitionForTrial th s) = choiceA s"
  "choiceB (startRecognitionForTrial th s) = choiceB s"
  "timers (startRecognitionForTrial th s) = timers s"
  "recActive (startRecognitionForTrial th s)
     = (if voice (settings s) \<and> rec s then \<not> th else recActive s)"
  "listening (startRecognitionForTrial th s)
     = (if voice (settings s) \<and> rec s then \<not> th else listening s)"
  by (simp_all add: startRecognitionForTrial_def stopRecognition_eq Let_def)

text \<open>The flag and the session of the recogniser stay consistent through every step.\<close>

lemma rec_consistent_init: "rec_consistent init_state"
  by (simp add: rec_consistent_def init_state_def)

lemma rec_consistent_same:
  "listening s' = listening s \<Longrightarrow> rec s' = rec s \<Longrightarrow> recActive s' = recActive s \<Longrightarrow>
     rec_consistent s \<Longrightarrow> rec_consistent s'"
  by (simp add: rec_consistent_def)

lemma rec_consistent_stop:
  "rec_consistent s \<Longrightarrow> rec_consistent (stopRecognition s) \<and> \<not> listening (stopRecognition s)"
  by (auto simp: rec_consistent_def stopRecognition_eq)

lemma rec_consistent_steps:
  assumes "rec_consistent s"
  shows "rec_consistent (startRecognitionForTrial th s)"
    and "rec_consistent (timer_fires i th now s)"
    and "rec_consistent (onerror s)" and "rec_consistent (onend s)"
    and "rec_consistent (btnAbort_click s)" and "rec_consistent (btnRestart_click s)"
    and "rec_consistent (finish s)" and "rec_consistent (schedule_stimulus rnd tr s)"
    and "rec_consistent (latched s)"
  using assms
  by (auto simp: rec_consistent_def startRecognitionForTrial_def stopRecognition_eq Let_def
      timer_fires_def stimulus_shown_def lockChoices_def setStimulus_def onerror_def onend_def
      btnAbort_click_def btnRestart_click_def show_screen_def finish_eq schedule_stimulus_eq
      latched_eq)

lemma rec_consistent_presentTrial:
  assumes "presentTrial rnd s = Some s'" and "rec_consistent s"
  shows "rec_consistent s'"
  using presentTrial_cases [OF assms(1)] assms(2)
  by (auto simp: rec_consistent_def schedule_stimulus_eq finish_eq startPhase_def)

lemma rec_consistent_recordAnswer:
  assumes "rec_consistent s"
  shows "recordAnswer rnd v now stamp s = Returned s' \<Longrightarrow> rec_consistent s'"
    and "recordAnswer rnd v now stamp s = Threw err s' \<Longrightarrow> rec_consistent s'"
proof -
  have c: "rec_consistent (stopRecognition s)" using assms rec_consistent_stop by blast
  show "rec_consistent s'" if "recordAnswer rnd v now stamp s = Returned s'"
  proof -
    from that obtain s3 where "presentTrial rnd s3 = Some s'"
      and "listening s3 = listening (stopRecognition s)" "rec s3 = rec (stopRecognition s)"
      "recActive s3 = recActive (stopRecognition s)"
      by (auto simp: recordAnswer_def Let_def split: if_splits option.splits)
    with c show ?thesis
      using rec_consistent_presentTrial rec_consistent_same by blast
  qed
  show "rec_consistent s'" if "recordAnswer rnd v now stamp s = Threw err s'"
    using that c by (auto simp: recordAnswer_def Let_def split: if_splits option.splits)
qed

lemma rec_consistent_handle:
  assumes "rec_consistent s"
  shows "handle rnd e now stamp s = Returned s' \<Longrightarrow> rec_consistent s'"
    and "handle rnd e now stamp s = Threw err s' \<Longrightarrow> rec_consistent s'"
proof -
  have l: "rec_consistent (latched s)" using assms by (rule rec_consistent_steps)
  have split: "handle rnd e now stamp s = Returned s
      \<or> handle rnd e now stamp s = Threw ReferenceError s
      \<or> (\<exists>v. handle rnd e now stamp s = recordAnswer rnd v now stamp (latched s))"
    using handle_latched [of s rnd e now stamp] handle_ignored [of e s rnd now stamp]
      handle_accepted [of s e _ rnd now stamp]
    by (cases "resolve e s") auto
  show "rec_consistent s'" if "handle rnd e now stamp s = Returned s'"
  proof -
    from split that consider "s' = s"
      | v where "recordAnswer rnd v now stamp (latched s) = Returned s'"
      by (metis outcome.inject(1) outcome.distinct(1))
    then show ?thesis
      using assms rec_consistent_recordAnswer(1) [OF l] by cases auto
  qed
  show "rec_consistent s'" if "handle rnd e now stamp s = Threw err s'"
  proof -
    from split that consider "s' = s"
      | v where "recordAnswer rnd v now stamp (latched s) = Threw err s'"
      by (metis outcome.inject(2) outcome.distinct(1))
    then show ?thesis
      using assms rec_consistent_recordAnswer(2) [OF l] by cases auto
  qed
qed

lemma rec_consistent_startTest:
  assumes "startTest rnd f s = Some s'" and "rec_consistent s"
  shows "rec_consistent s'"
proof -
  from startTest_cases [OF assms(1)] obtain ts k where
    p: "presentTrial rnd (started f ts k s) = Some s'" by blast
  have "rec_consistent (started f ts k s)"
    using assms(2) by (simp add: rec_consistent_def started_def)
  with p show ?thesis by (rule rec_consistent_presentTrial)
qed

text \<open>
  Claim C6, as amended. After Abort or Restart, in any state, the phase is \<open>setup\<close>, the
  trials and the results are empty and recognition is stopped: \<open>recActive\<close> is false,
  and the recogniser is in no session. A timer that is still pending is not cancelled,
  and its callback does not look at the phase: when it runs it leaves the phase, the
  trials, the results, the index and the latch as they are, but it writes the choices of
  the trial it has captured into the two buttons, enables them, overwrites \<open>t0\<close> and,
  when voice is on and there is a recogniser, starts recognition again.
\<close>

theorem abort_resets_session:
  "phase (btnAbort_click s) = Setup \<and> trials (btnAbort_click s) = []
   \<and> results (btnAbort_click s) = [] \<and> \<not> recActive (btnAbort_click s)
   \<and> screen (btnAbort_click s) = ScreenSetup \<and> timers (btnAbort_click s) = timers s
   \<and> phase (btnRestart_click s) = Setup \<and> trials (btnRestart_click s) = []
   \<and> results (btnRestart_click s) = [] \<and> \<not> recActive (btnRestart_click s)
   \<and> screen (btnRestart_click s) = ScreenSetup \<and> timers (btnRestart_click s) = timers s
   \<and> (rec_consistent s \<longrightarrow> \<not> listening (btnAbort_click s) \<and> \<not> listening (btnRestart_click s))
   \<and> (i < length (timers u) \<longrightarrow>
        phase (timer_fires i start_throws now u) = phase u
        \<and> trials (timer_fires i start_throws now u) = trials u
        \<and> results (timer_fires i start_throws now u) = results u
        \<and> idx (timer_fires i start_throws now u) = idx u
        \<and> answered (timer_fires i start_throws now u) = answered u
        \<and> t0 (timer_fires i start_throws now u) = now
        \<and> choiceA (timer_fires i start_throws now u)
            = \<lparr>disabled = False, dataset_value = choice_left (snd (timers u ! i))\<rparr>
        \<and> choiceB (timer_fires i start_throws now u)
            = \<lparr>disabled = False, dataset_value = choice_right (snd (timers u ! i))\<rparr>
        \<and> recActive (timer_fires i start_throws now u)
            = (if voice (settings u) \<and> rec u then \<not> start_throws else recActive u)
        \<and> length (timers (timer_fires i start_throws now u)) = length (timers u) - 1)"
proof -
  have a: "phase (btnAbort_click s) = Setup \<and> trials (btnAbort_click s) = []
   \<and> results (btnAbort_click s) = [] \<and> \<not> recActive (btnAbort_click s)
   \<and> screen (btnAbort_click s) = ScreenSetup \<and> timers (btnAbort_click s) = timers s"
    by (simp add: btnAbort_click_def show_screen_def stopRecognition_eq)
  have r: "phase (btnRestart_click s) = Setup \<and> trials (btnRestart_click s) = []
   \<and> results (btnRestart_click s) = [] \<and> \<not> recActive (btnRestart_click s)
   \<and> screen (btnRestart_click s) = ScreenSetup \<and> timers (btnRestart_click s) = timers s"
    by (simp add: btnRestart_click_def show_screen_def stopRecognition_eq)
  have l: "\<not> listening (btnAbort_click s) \<and> \<not> listening (btnRestart_click s)"
    if "rec_consistent s"
    using that
    by (auto simp: rec_consistent_def btnAbort_click_def btnRestart_click_def show_screen_def
        stopRecognition_eq)
  have t: "phase (timer_fires i start_throws now u) = phase u
        \<and> trials (timer_fires i start_throws now u) = trials u
        \<and> results (timer_fires i start_throws now u) = results u
        \<and> idx (timer_fires i start_throws now u) = idx u
        \<and> answered (timer_fires i start_throws now u) = answered u
        \<and> t0 (timer_fires i start_throws now u) = now
        \<and> choiceA (timer_fires i start_throws now u)
            = \<lparr>disabled = False, dataset_value = choice_left (snd (timers u ! i))\<rparr>
        \<and> choiceB (timer_fires i start_throws now u)
            = \<lparr>disabled = False, dataset_value = choice_right (snd (timers u ! i))\<rparr>
        \<and> recActive (timer_fires i start_throws now u)
            = (if voice (settings u) \<and> rec u then \<not> start_throws else recActive u)
        \<and> length (timers (timer_fires i start_throws now u)) = length (timers u) - 1"
    if "i < length (timers u)"
    using that by (simp add: timer_fires_eq startRecognition_frame)
  from a r l t show ?thesis by blast
qed

lemma aborted_facts:
  "timers (btnAbort_click running_state) = [(437, sample_trials ! 0)]"
  "t0 (btnAbort_click running_state) = 0"
  "disabled (choiceA (btnAbort_click running_state))"
  "answered (btnAbort_click running_state) = False"
  "idx (btnAbort_click running_state) = 0"
  by (simp_all add: btnAbort_click_def show_screen_def stopRecognition_eq running_state_def
      init_state_def)

theorem abort_resets_session_witness:
  "rec_consistent (armed_state\<lparr>rec := True, recActive := True, listening := True\<rparr>)
   \<and> \<not> listening (btnAbort_click (armed_state\<lparr>rec := True, recActive := True, listening := True\<rparr>))
   \<and> \<not> listening (btnRestart_click (armed_state\<lparr>rec := True, recActive := True, listening := True\<rparr>))
   \<and> phase (btnAbort_click running_state) = Setup
   \<and> 0 < length (timers (btnAbort_click running_state))
   \<and> phase (timer_fires 0 False 1500 (btnAbort_click running_state)) = Setup
   \<and> trials (timer_fires 0 False 1500 (btnAbort_click running_state)) = []
   \<and> results (timer_fires 0 False 1500 (btnAbort_click running_state)) = []
   \<and> t0 (timer_fires 0 False 1500 (btnAbort_click running_state)) = 1500
   \<and> choiceA (timer_fires 0 False 1500 (btnAbort_click running_state))
       = \<lparr>disabled = False, dataset_value = ''YELLOW''\<rparr>"
proof -
  let ?l = "armed_state\<lparr>rec := True, recActive := True, listening := True\<rparr>"
  let ?a = "btnAbort_click running_state"
  have c: "rec_consistent ?l" by (simp add: rec_consistent_def)
  have n: "0 < length (timers ?a)" by (simp add: aborted_facts)
  have cl: "choice_left (snd (timers ?a ! 0)) = ''YELLOW''"
    by (simp add: aborted_facts sample_trials_def)
  from abort_resets_session [of ?l] c
  have one: "\<not> listening (btnAbort_click ?l)" "\<not> listening (btnRestart_click ?l)" by blast+
  note inst = abort_resets_session [of running_state 0 ?a False 1500]
  from inst have two: "phase ?a = Setup" "trials ?a = []" "results ?a = []" by blast+
  from inst n have three: "phase (timer_fires 0 False 1500 ?a) = phase ?a"
    "trials (timer_fires 0 False 1500 ?a) = trials ?a"
    "results (timer_fires 0 False 1500 ?a) = results ?a"
    "t0 (timer_fires 0 False 1500 ?a) = 1500"
    "choiceA (timer_fires 0 False 1500 ?a)
       = \<lparr>disabled = False, dataset_value = choice_left (snd (timers ?a ! 0))\<rparr>"
    by blast+
  from c one n two three cl show ?thesis by simp
qed

lemma restart_after_abort:
  "startTest cycle_rnd sample_form (btnAbort_click running_state) = Some restarted_state"
proof -
  let ?a = "btnAbort_click running_state"
  have g: "generateTrials cycle_rnd (Some 3) (Some (1 / 2)) 11 = Some (restart_trials, 21)"
    by (simp add: generator_eval cycle_eval restart_trials_def)
  have f: "\<not> practiceToggle_checked sample_form" "nTrials_value sample_form = Some 3"
    "inconRate_value sample_form = Some (1 / 2)" "draws ?a = 11"
    by (simp_all add: sample_form_def btnAbort_click_def show_screen_def stopRecognition_eq
        running_state_def init_state_def)
  have "startTest cycle_rnd sample_form ?a
      = presentTrial cycle_rnd (started sample_form restart_trials 21 ?a)"
    by (simp add: startTest_eq f g)
  also have "\<dots> = Some (schedule_stimulus cycle_rnd
      (trials (started sample_form restart_trials 21 ?a)
         ! idx (started sample_form restart_trials 21 ?a))
      (started sample_form restart_trials 21 ?a))"
    by (intro presentTrial_current) (simp add: started_fields restart_trials_def)
  also have "schedule_stimulus cycle_rnd
      (trials (started sample_form restart_trials 21 ?a)
         ! idx (started sample_form restart_trials 21 ?a))
      (started sample_form restart_trials 21 ?a) = restarted_state"
    by (simp add: schedule_stimulus_eq started_def btnAbort_click_def show_screen_def
        stopRecognition_eq running_state_def init_state_def restarted_state_def sample_form_def
        trim_def is_space_def cycle_index)
  finally show ?thesis .
qed

text \<open>
  The claim as it is stated fails on a timer that is pending when Abort is clicked. When
  it runs, at the clock reading 1500, it overwrites \<open>t0\<close> and enables the buttons, so
  the state is not the one Abort left. When Start has been clicked again in the meantime,
  it puts the choices of the aborted trial (YELLOW and BLUE) on the buttons of the new
  run, whose first trial has the choices YELLOW and GREEN, and a tap on the second button
  is recorded for that trial with the response BLUE.
\<close>

theorem stale_timer_counterexample:
  "phase (btnAbort_click running_state) = Setup
   \<and> t0 (btnAbort_click running_state) = 0
   \<and> disabled (choiceA (btnAbort_click running_state))
   \<and> t0 (timer_fires 0 False 1500 (btnAbort_click running_state)) = 1500
   \<and> \<not> disabled (choiceA (timer_fires 0 False 1500 (btnAbort_click running_state)))
   \<and> timer_fires 0 False 1500 (btnAbort_click running_state) \<noteq> btnAbort_click running_state
   \<and> startTest cycle_rnd sample_form (btnAbort_click running_state) = Some restarted_state
   \<and> choice_left (trials restarted_state ! idx restarted_state) = ''YELLOW''
   \<and> choice_right (trials restarted_state ! idx restarted_state) = ''GREEN''
   \<and> choiceB (timer_fires 0 False 1500 restarted_state)
       = \<lparr>disabled = False, dataset_value = ''BLUE''\<rparr>
   \<and> t0 (timer_fires 0 False 1500 restarted_state) = 1500
   \<and> map_option responses
        (run_events cycle_rnd [(Tap ChoiceB, 1600, ''10:00:02'')]
           (timer_fires 0 False 1500 restarted_state))
       = Some [Some (Str ''BLUE'')]"
proof -
  let ?a = "btnAbort_click running_state"
  let ?t = "timer_fires 0 False 1500 ?a"
  let ?r = "timer_fires 0 False 1500 restarted_state"
  have a: "phase ?a = Setup"
    by (simp add: btnAbort_click_def show_screen_def stopRecognition_eq)
  have n: "0 < length (timers ?a)" by (simp add: aborted_facts)
  have t: "t0 ?t = 1500" "\<not> disabled (choiceA ?t)"
    using n by (simp_all add: timer_fires_eq startRecognition_frame)
  from t(1) aborted_facts(2) have ne: "?t \<noteq> ?a" by auto
  have c: "choice_left (trials restarted_state ! idx restarted_state) = ''YELLOW''"
    "choice_right (trials restarted_state ! idx restarted_state) = ''GREEN''"
    by (simp_all add: restarted_state_def running_state_def init_state_def restart_trials_def)
  have m: "0 < length (timers restarted_state)"
    "snd (timers restarted_state ! 0) = sample_trials ! 0"
    by (simp_all add: restarted_state_def)
  have r: "choiceB ?r = \<lparr>disabled = False, dataset_value = ''BLUE''\<rparr>" "t0 ?r = 1500"
    "\<not> answered ?r" "phase ?r = Test" "idx ?r < length (trials ?r)" "results ?r = []"
    using m
    by (simp_all add: timer_fires_eq startRecognition_frame sample_trials_def
        restarted_state_def running_state_def init_state_def restart_trials_def)
  from r(1) have v: "resolve (Tap ChoiceB) ?r = Some ''BLUE''"
    by (simp add: resolve_def button_of_def)
  from handle_accepted_test [OF r(3) v r(4,5), of cycle_rnd 1600 "''10:00:02''"]
  obtain s' x where h: "handle cycle_rnd (Tap ChoiceB) 1600 ''10:00:02'' ?r = Returned s'"
    "results s' = results ?r @ [x]" "get_prop x ''response'' = Some (Str ''BLUE'')"
    by blast
  from h r(6) have "responses s' = [Some (Str ''BLUE'')]" by (simp add: responses_def)
  with h(1) have e: "map_option responses
        (run_events cycle_rnd [(Tap ChoiceB, 1600, ''10:00:02'')] ?r)
       = Some [Some (Str ''BLUE'')]"
    by simp
  from a aborted_facts(2,3) t ne restart_after_abort c r(1,2) e show ?thesis by simp
qed

subsection \<open>Reaction times\<close>



lemma startTest_effect:
  assumes "startTest rnd f s = Some s'"
  shows "t0 s' = t0 s" and "results s' = []" and "rec s' = rec s"
proof -
  from startTest_cases [OF assms] obtain ts k where
    p: "presentTrial rnd (started f ts k s) = Some s'" by blast
  from presentTrial_frame(1) [OF p] show "t0 s' = t0 s" by (simp add: started_def)
  from presentTrial_frame(5) [OF p] show "results s' = []"
    by (simp add: started_fields split: if_splits)
  from presentTrial_frame(4) [OF p] show "rec s' = rec s" by (simp add: started_def)
qed

lemma timer_fires_effect:
  "t0 (timer_fires i th now s) = (if i < length (timers s) then now else t0 s)"
  "results (timer_fires i th now s) = results s"
  "rec (timer_fires i th now s) = rec s"
  by (simp_all add: timer_fires_def stimulus_shown_def startRecognitionForTrial_def
      stopRecognition_eq lockChoices_def setStimulus_def Let_def)

lemma reset_effect:
  "t0 (btnAbort_click s) = t0 s" "results (btnAbort_click s) = []"
  "t0 (btnRestart_click s) = t0 s" "results (btnRestart_click s) = []"
  "t0 (onend s) = t0 s" "results (onend s) = results s"
  "t0 (onerror s) = t0 s" "results (onerror s) = results s"
  "rec (btnAbort_click s) = rec s" "rec (btnRestart_click s) = rec s"
  "rec (onend s) = rec s" "rec (onerror s) = rec s"
  by (simp_all add: btnAbort_click_def btnRestart_click_def onend_def onerror_def
      show_screen_def stopRecognition_eq)




text \<open>No step of a run assigns \<open>state.rec\<close>: it is \<open>null\<close> in every state of a run
  from the page as loaded.\<close>

lemma step_at_rec:
  assumes "step_at rnd st now stamp s = Some s'"
  shows "rec s' = rec s"
proof (cases st)
  case (StartClick f)
  with assms have "startTest rnd f s = Some s'" by (simp add: step_at_def)
  then show ?thesis by (rule startTest_effect(3))
next
  case (Dispatch e)
  have split: "handle rnd e now stamp s = Returned s
      \<or> handle rnd e now stamp s = Threw ReferenceError s
      \<or> (\<exists>v. handle rnd e now stamp s = recordAnswer rnd v now stamp (latched s))"
    using handle_latched [of s rnd e now stamp] handle_ignored [of e s rnd now stamp]
      handle_accepted [of s e _ rnd now stamp]
    by (cases "resolve e s") auto
  from assms Dispatch have h: "handle rnd e now stamp s = Returned s'
      \<or> (\<exists>err. handle rnd e now stamp s = Threw err s')"
    by (auto simp: step_at_def split: outcome.splits)
  with split consider "s' = s"
    | v where "recordAnswer rnd v now stamp (latched s) = Returned s'"
    | v err where "recordAnswer rnd v now stamp (latched s) = Threw err s'"
    by (metis outcome.inject(1) outcome.inject(2) outcome.distinct(1))
  then show ?thesis
  proof cases
    case 1
    then show ?thesis by simp
  next
    case 2
    show ?thesis
    proof (cases "idx (latched s) < length (trials (latched s))")
      case True
      from recordAnswer_rec [OF 2 True] show ?thesis by (simp add: latched_eq)
    next
      case False
      with 2 show ?thesis by (simp add: recordAnswer_no_trial)
    qed
  next
    case 3
    then have "\<not> idx (latched s) < length (trials (latched s))"
      by (auto simp: recordAnswer_current split: option.splits)
    with 3 have "s' = stopRecognition (latched s)" by (simp add: recordAnswer_no_trial)
    then show ?thesis by (simp add: stopRecognition_eq latched_eq)
  qed
qed (use assms in \<open>auto simp: step_at_def timer_fires_effect reset_effect split: if_splits\<close>)

lemma run_rec:
  assumes "run rnd steps (c, s) = Some (c', s')"
  shows "rec s' = rec s"
  using assms
proof (induction steps arbitrary: c s)
  case Nil
  then show ?case by simp
next
  case (Cons x steps)
  obtain elapsed stamp st where x: "x = (elapsed, stamp, st)" by (cases x)
  from Cons.prems obtain s1 where
    s1: "step_at rnd st (c + \<bar>elapsed\<bar>) stamp s = Some s1"
    and r: "run rnd steps (c + \<bar>elapsed\<bar>, s1) = Some (c', s')"
    by (auto simp: x split: option.splits)
  from Cons.IH [OF r] step_at_rec [OF s1] show ?case by simp
qed

lemma no_recogniser: "run rnd steps (c, init_state) = Some (c', s') \<Longrightarrow> \<not> rec s'"
  using run_rec [of rnd steps c init_state c' s'] by (simp add: init_state_def)







lemma sample_run:
  "run cycle_rnd [(600, ''10:00:00'', StartClick sample_form),
                  (400, ''10:00:00'', TimerFires 0 False)] (0, init_state)
     = Some (1000, armed_state)"
  by (simp add: step_at_def sample_run_starts sample_timer_fires)



subsection \<open>Settings are not validated\<close>

lemma generateTrials_no_count:
  "n = None \<or> (\<exists>m. n = Some m \<and> m \<le> 0) \<Longrightarrow> generateTrials rnd n rate k = Some ([], k)"
  by (auto simp: generateTrials_def generate_loop_stop lt_count_def)

lemma generated_congruent:
  "generated rnd rate i t \<Longrightarrow> rate = None \<or> (\<exists>p. rate = Some p \<and> p \<le> 0) \<Longrightarrow> word t = ink t"
  unfolding generated_def using generate_trial_congruent rate_none_selects by blast

text \<open>The state that \<open>startTest\<close> returns holds the inputs and the generated batch.\<close>

lemma startTest_result:
  assumes "startTest rnd f s = Some s'"
  shows "nTrials (settings s') = nTrials_value f" and "inconRate (settings s') = inconRate_value f"
    and "phase s' = (if practiceToggle_checked f then Practice else Test)"
    and "screen s' \<noteq> ScreenSetup"
    and "t \<in> set (trials s') \<Longrightarrow> \<exists>i. generated rnd (inconRate_value f) i t"
proof -
  from startTest_cases [OF assms] obtain ts k where
    g: "generateTrials rnd (if practiceToggle_checked f then Some 2 else nTrials_value f)
        (inconRate_value f) (draws s) = Some (ts, k)"
    and p: "presentTrial rnd (started f ts k s) = Some s'" by blast
  let ?S = "started f ts k s"
  from generateTrials_result(1) [OF g]
  have len: "practiceToggle_checked f \<Longrightarrow> length ts = 2" by simp
  then have cur: "phase ?S \<noteq> Practice \<or> idx ?S < length (trials ?S)"
    by (auto simp: started_fields)
  from presentTrial_frame(3) [OF p]
  show "nTrials (settings s') = nTrials_value f" "inconRate (settings s') = inconRate_value f"
    by (simp_all add: started_fields)
  from presentTrial_frame(6) [OF p] cur
  show "phase s' = (if practiceToggle_checked f then Practice else Test)"
    by (auto simp: started_fields)
  from presentTrial_cases [OF p] cur show "screen s' \<noteq> ScreenSetup"
    by (auto simp: schedule_stimulus_eq finish_eq started_def)
  from presentTrial_frame(8) [OF p cur] have "trials s' = ts" by (simp add: started_fields)
  then show "\<exists>i. generated rnd (inconRate_value f) i t" if "t \<in> set (trials s')"
    using that generateTrials_result(2) [OF g] by simp
qed

lemma startTest_no_count:
  assumes "\<not> practiceToggle_checked f"
    and "nTrials_value f = None \<or> (\<exists>m. nTrials_value f = Some m \<and> m \<le> 0)"
  shows "\<exists>s'. startTest rnd f s = Some s' \<and> phase s' = Test \<and> trials s' = []
    \<and> results s' = [] \<and> screen s' = ScreenDone"
proof -
  let ?S = "started f [] (draws s) s"
  from assms have "startTest rnd f s = presentTrial rnd ?S"
    by (simp add: startTest_eq generateTrials_no_count)
  also have "\<dots> = Some (finish ?S)"
    using assms(1) by (intro presentTrial_finish) (simp_all add: started_fields)
  finally have "startTest rnd f s = Some (finish ?S)" .
  moreover have "phase (finish ?S) = Test \<and> trials (finish ?S) = [] \<and> results (finish ?S) = []
    \<and> screen (finish ?S) = ScreenDone"
    using assms(1) by (simp add: finish_eq started_def)
  ultimately show ?thesis by blast
qed

lemma practice_end_no_count:
  assumes "phase p = Practice" and "\<not> idx p < length (trials p)"
    and "nTrials (settings p) = None \<or> (\<exists>m. nTrials (settings p) = Some m \<and> m \<le> 0)"
  shows "\<exists>u. presentTrial rnd p = Some u \<and> phase u = Test \<and> trials u = [] \<and> results u = []
    \<and> screen u = ScreenDone"
proof -
  let ?S = "(startPhase Test p)\<lparr>trials := [], draws := draws p\<rparr>"
  from assms have "presentTrial rnd p = presentTrial rnd ?S"
    by (simp add: presentTrial_switch generateTrials_no_count)
  also have "\<dots> = Some (finish ?S)"
    by (intro presentTrial_finish) (simp_all add: startPhase_def)
  finally have "presentTrial rnd p = Some (finish ?S)" .
  moreover have "phase (finish ?S) = Test \<and> trials (finish ?S) = [] \<and> results (finish ?S) = []
    \<and> screen (finish ?S) = ScreenDone"
    by (simp add: finish_eq startPhase_def)
  ultimately show ?thesis by blast
qed

lemma startTest_practice:
  assumes "practiceToggle_checked f" and "startTest rnd f s = Some s'"
  shows "phase s' = Practice \<and> length (trials s') = 2 \<and> results s' = []
    \<and> screen s' = ScreenTest"
proof -
  from startTest_cases [OF assms(2)] assms(1) obtain ts k where
    g: "generateTrials rnd (Some 2) (inconRate_value f) (draws s) = Some (ts, k)"
    and p: "presentTrial rnd (started f ts k s) = Some s'" by auto
  let ?S = "started f ts k s"
  from generateTrials_result(1) [OF g] have len: "length ts = 2" by simp
  then have cur: "idx ?S < length (trials ?S)" by (simp add: started_fields)
  with p have "s' = schedule_stimulus rnd (trials ?S ! idx ?S) ?S"
    by (simp add: presentTrial_current)
  then show ?thesis
    using assms(1) len by (simp add: schedule_stimulus_eq started_def)
qed

text \<open>
  Claim C7, as amended. \<open>startTest\<close> checks nothing: whenever it returns, the settings
  hold the parsed trial count and rate as they were given, \<open>NaN\<close> and values out of range
  too, a phase has been started and the setup screen is left. It returns whenever the
  generator does: on every random source that does not repeat one colour for ever, and
  on every source when the rate is \<open>NaN\<close>, zero or negative. A rate of 1 or more makes
  every trial incongruent; a rate that is \<open>NaN\<close>, zero or negative makes every trial
  congruent. With the practice box not checked, a trial count that is \<open>NaN\<close>, zero or
  negative gives an empty test batch, and the run finishes at once with no record. With
  the practice box checked the two practice trials are presented whatever the count is,
  and when they are used up such a count gives an empty test batch, and the run finishes
  with no record.
\<close>

theorem start_does_not_validate:
  "(startTest rnd f s = Some s' \<longrightarrow>
      nTrials (settings s') = nTrials_value f \<and> inconRate (settings s') = inconRate_value f
      \<and> phase s' = (if practiceToggle_checked f then Practice else Test)
      \<and> screen s' \<noteq> ScreenSetup)
   \<and> (unstuck rnd \<or> inconRate_value f = None \<or> (\<exists>p. inconRate_value f = Some p \<and> p \<le> 0) \<longrightarrow>
        (\<exists>u. startTest rnd f s = Some u))
   \<and> (startTest rnd f s = Some s' \<and> (\<exists>p. inconRate_value f = Some p \<and> 1 \<le> p) \<longrightarrow>
        (\<forall>t \<in> set (trials s'). word t \<noteq> ink t))
   \<and> (startTest rnd f s = Some s'
        \<and> (inconRate_value f = None \<or> (\<exists>p. inconRate_value f = Some p \<and> p \<le> 0)) \<longrightarrow>
        (\<forall>t \<in> set (trials s'). word t = ink t))
   \<and> (\<not> practiceToggle_checked f
        \<and> (nTrials_value f = None \<or> (\<exists>m. nTrials_value f = Some m \<and> m \<le> 0)) \<longrightarrow>
        (\<exists>u. startTest rnd f s = Some u \<and> phase u = Test \<and> trials u = [] \<and> results u = []
           \<and> screen u = ScreenDone))
   \<and> (practiceToggle_checked f \<and> startTest rnd f s = Some s' \<longrightarrow>
        phase s' = Practice \<and> length (trials s') = 2 \<and> results s' = []
        \<and> screen s' = ScreenTest)
   \<and> (phase p = Practice \<and> \<not> idx p < length (trials p)
        \<and> (nTrials (settings p) = None \<or> (\<exists>m. nTrials (settings p) = Some m \<and> m \<le> 0)) \<longrightarrow>
        (\<exists>u. presentTrial rnd p = Some u \<and> phase u = Test \<and> trials u = [] \<and> results u = []
           \<and> screen u = ScreenDone))"
proof -
  have A: "nTrials (settings s') = nTrials_value f \<and> inconRate (settings s') = inconRate_value f
      \<and> phase s' = (if practiceToggle_checked f then Practice else Test)
      \<and> screen s' \<noteq> ScreenSetup"
    if "startTest rnd f s = Some s'"
    using startTest_result(1-4) [OF that] by simp
  have B: "\<forall>t \<in> set (trials s'). word t \<noteq> ink t"
    if a: "startTest rnd f s = Some s' \<and> (\<exists>p. inconRate_value f = Some p \<and> 1 \<le> p)"
  proof
    from a obtain p where p: "inconRate_value f = Some p" "1 \<le> p" by blast
    fix t assume "t \<in> set (trials s')"
    with a startTest_result(5) [of rnd f s s' t] p obtain i where "generated rnd (Some p) i t"
      by auto
    then show "word t \<noteq> ink t" using p(2) by (rule generated_incongruent)
  qed
  have C: "\<forall>t \<in> set (trials s'). word t = ink t"
    if a: "startTest rnd f s = Some s'
        \<and> (inconRate_value f = None \<or> (\<exists>p. inconRate_value f = Some p \<and> p \<le> 0))"
  proof
    fix t assume "t \<in> set (trials s')"
    with a startTest_result(5) [of rnd f s s' t] obtain i where
      "generated rnd (inconRate_value f) i t" by auto
    then show "word t = ink t" using a by (intro generated_congruent) auto
  qed
  have D: "\<exists>u. startTest rnd f s = Some u \<and> phase u = Test \<and> trials u = [] \<and> results u = []
           \<and> screen u = ScreenDone"
    if "\<not> practiceToggle_checked f
        \<and> (nTrials_value f = None \<or> (\<exists>m. nTrials_value f = Some m \<and> m \<le> 0))"
    using that by (intro startTest_no_count) auto
  have E: "\<exists>u. startTest rnd f s = Some u"
    if "unstuck rnd \<or> inconRate_value f = None \<or> (\<exists>p. inconRate_value f = Some p \<and> p \<le> 0)"
    using that by (rule startTest_returns)
  have F: "phase s' = Practice \<and> length (trials s') = 2 \<and> results s' = []
        \<and> screen s' = ScreenTest"
    if "practiceToggle_checked f \<and> startTest rnd f s = Some s'"
    using that startTest_practice by blast
  have G: "\<exists>u. presentTrial rnd p = Some u \<and> phase u = Test \<and> trials u = [] \<and> results u = []
           \<and> screen u = ScreenDone"
    if "phase p = Practice \<and> \<not> idx p < length (trials p)
        \<and> (nTrials (settings p) = None \<or> (\<exists>m. nTrials (settings p) = Some m \<and> m \<le> 0))"
    using that by (intro practice_end_no_count) auto
  from A B C D E F G show ?thesis by blast
qed

lemma high_rate_run:
  "startTest cycle_rnd (sample_form\<lparr>inconRate_value := Some (15 / 2)\<rparr>) init_state
     = Some (schedule_stimulus cycle_rnd (incongruent_trials ! 0)
              (started (sample_form\<lparr>inconRate_value := Some (15 / 2)\<rparr>) incongruent_trials 12
                 init_state))"
proof -
  let ?f = "sample_form\<lparr>inconRate_value := Some (15 / 2)\<rparr>"
  have g: "generateTrials cycle_rnd (Some 3) (Some (15 / 2)) 0 = Some (incongruent_trials, 12)"
    by (simp add: generator_eval cycle_eval incongruent_trials_def)
  have f: "\<not> practiceToggle_checked ?f" "nTrials_value ?f = Some 3"
    "inconRate_value ?f = Some (15 / 2)" "draws init_state = 0"
    by (simp_all add: sample_form_def init_state_def)
  have "startTest cycle_rnd ?f init_state
      = presentTrial cycle_rnd (started ?f incongruent_trials 12 init_state)"
    by (simp add: startTest_eq f g)
  also have "\<dots> = Some (schedule_stimulus cycle_rnd
      (trials (started ?f incongruent_trials 12 init_state)
         ! idx (started ?f incongruent_trials 12 init_state))
      (started ?f incongruent_trials 12 init_state))"
    by (intro presentTrial_current) (simp add: started_fields incongruent_trials_def)
  finally show ?thesis by (simp add: started_fields)
qed

theorem start_does_not_validate_witness:
  "startTest cycle_rnd (sample_form\<lparr>inconRate_value := Some (15 / 2)\<rparr>) init_state
     = Some (schedule_stimulus cycle_rnd (incongruent_trials ! 0)
              (started (sample_form\<lparr>inconRate_value := Some (15 / 2)\<rparr>) incongruent_trials 12
                 init_state))
   \<and> inconRate_value (sample_form\<lparr>inconRate_value := Some (15 / 2)\<rparr>) = Some (15 / 2)
   \<and> (1 :: real) \<le> 15 / 2
   \<and> inconRate (settings (schedule_stimulus cycle_rnd (incongruent_trials ! 0)
              (started (sample_form\<lparr>inconRate_value := Some (15 / 2)\<rparr>) incongruent_trials 12
                 init_state))) = Some (15 / 2)
   \<and> list_all (\<lambda>t. word t \<noteq> ink t)
        (trials (schedule_stimulus cycle_rnd (incongruent_trials ! 0)
              (started (sample_form\<lparr>inconRate_value := Some (15 / 2)\<rparr>) incongruent_trials 12
                 init_state)))
   \<and> inconRate_value (sample_form\<lparr>inconRate_value := None\<rparr>) = None
   \<and> (\<exists>u. startTest cycle_rnd (sample_form\<lparr>inconRate_value := None\<rparr>) init_state = Some u
         \<and> inconRate (settings u) = None \<and> phase u = Test
         \<and> list_all (\<lambda>t. word t = ink t) (trials u))
   \<and> \<not> practiceToggle_checked bad_form \<and> nTrials_value bad_form = None
   \<and> (\<exists>u. startTest cycle_rnd bad_form init_state = Some u \<and> phase u = Test \<and> trials u = []
         \<and> results u = [] \<and> screen u = ScreenDone)
   \<and> unstuck cycle_rnd
   \<and> practiceToggle_checked (bad_form\<lparr>practiceToggle_checked := True\<rparr>)
   \<and> nTrials_value (bad_form\<lparr>practiceToggle_checked := True\<rparr>) = None
   \<and> (\<exists>u. startTest cycle_rnd (bad_form\<lparr>practiceToggle_checked := True\<rparr>) init_state = Some u
         \<and> nTrials (settings u) = None \<and> phase u = Practice \<and> length (trials u) = 2
         \<and> results u = [] \<and> screen u = ScreenTest)
   \<and> phase (practice_end\<lparr>settings := (settings practice_end)\<lparr>nTrials := Some (- 4)\<rparr>\<rparr>) = Practice
   \<and> \<not> idx (practice_end\<lparr>settings := (settings practice_end)\<lparr>nTrials := Some (- 4)\<rparr>\<rparr>)
         < length (trials (practice_end\<lparr>settings := (settings practice_end)\<lparr>nTrials := Some (- 4)\<rparr>\<rparr>))
   \<and> (\<exists>u. presentTrial cycle_rnd
             (practice_end\<lparr>settings := (settings practice_end)\<lparr>nTrials := Some (- 4)\<rparr>\<rparr>) = Some u
         \<and> phase u = Test \<and> trials u = [] \<and> results u = [] \<and> screen u = ScreenDone)"
proof -
  let ?h = "sample_form\<lparr>inconRate_value := Some (15 / 2)\<rparr>"
  let ?x = "schedule_stimulus cycle_rnd (incongruent_trials ! 0)
              (started ?h incongruent_trials 12 init_state)"
  let ?n = "sample_form\<lparr>inconRate_value := None\<rparr>"
  let ?b = "bad_form\<lparr>practiceToggle_checked := True\<rparr>"
  let ?p = "practice_end\<lparr>settings := (settings practice_end)\<lparr>nTrials := Some (- 4)\<rparr>\<rparr>"
  have h: "inconRate_value ?h = Some (15 / 2)" "(1 :: real) \<le> 15 / 2" by simp_all
  have n: "inconRate_value ?n = None" "\<not> practiceToggle_checked ?n"
    by (simp_all add: sample_form_def)
  have b: "\<not> practiceToggle_checked bad_form" "nTrials_value bad_form = None"
    by (simp_all add: bad_form_def sample_form_def)
  have pb: "practiceToggle_checked ?b" "nTrials_value ?b = None"
    by (simp_all add: bad_form_def sample_form_def)
  have pe: "phase ?p = Practice" "\<not> idx ?p < length (trials ?p)"
    "nTrials (settings ?p) = Some (- 4)"
    by (simp_all add: practice_end_def armed_state_def running_state_def init_state_def
        sample_trials_def)
  have hx: "\<exists>p. inconRate_value ?h = Some p \<and> 1 \<le> p" using h by blast
  have nx: "inconRate_value ?n = None \<or> (\<exists>p. inconRate_value ?n = Some p \<and> p \<le> 0)"
    using n(1) by blast
  have bx: "\<not> practiceToggle_checked bad_form
      \<and> (nTrials_value bad_form = None \<or> (\<exists>m. nTrials_value bad_form = Some m \<and> m \<le> 0))"
    using b by blast
  have px: "nTrials (settings ?p) = None \<or> (\<exists>m. nTrials (settings ?p) = Some m \<and> m \<le> 0)"
    using pe(3) by simp
  note ih = start_does_not_validate [of cycle_rnd ?h init_state ?x]
  from ih high_rate_run have "inconRate (settings ?x) = inconRate_value ?h" by blast
  with h have one: "inconRate (settings ?x) = Some (15 / 2)" by simp
  from ih high_rate_run hx have one': "\<forall>t \<in> set (trials ?x). word t \<noteq> ink t" by blast
  from start_does_not_validate [of cycle_rnd ?n init_state] nx obtain u where
    u: "startTest cycle_rnd ?n init_state = Some u" by blast
  note iu = start_does_not_validate [of cycle_rnd ?n init_state u]
  from iu u have "inconRate (settings u) = inconRate_value ?n"
    "phase u = (if practiceToggle_checked ?n then Practice else Test)" by blast+
  with n have two: "inconRate (settings u) = None" "phase u = Test" by simp_all
  from iu u nx have two': "\<forall>t \<in> set (trials u). word t = ink t" by blast
  from start_does_not_validate [of cycle_rnd bad_form init_state] bx
  have three: "\<exists>u. startTest cycle_rnd bad_form init_state = Some u \<and> phase u = Test
      \<and> trials u = [] \<and> results u = [] \<and> screen u = ScreenDone"
    by blast
  from start_does_not_validate [of cycle_rnd ?b init_state] unstuck_cycle obtain w where
    w: "startTest cycle_rnd ?b init_state = Some w" by blast
  note iw = start_does_not_validate [of cycle_rnd ?b init_state w]
  from iw w pb have "nTrials (settings w) = nTrials_value ?b" "phase w = Practice"
    "length (trials w) = 2" "results w = []" "screen w = ScreenTest" by blast+
  with w pb have four: "\<exists>u. startTest cycle_rnd ?b init_state = Some u
         \<and> nTrials (settings u) = None \<and> phase u = Practice \<and> length (trials u) = 2
         \<and> results u = [] \<and> screen u = ScreenTest"
    by simp
  from start_does_not_validate [of cycle_rnd _ _ _ ?p] pe(1,2) px
  have five: "\<exists>u. presentTrial cycle_rnd ?p = Some u
         \<and> phase u = Test \<and> trials u = [] \<and> results u = [] \<and> screen u = ScreenDone"
    by blast
  from u two two' have "\<exists>u. startTest cycle_rnd ?n init_state = Some u
         \<and> inconRate (settings u) = None \<and> phase u = Test
         \<and> list_all (\<lambda>t. word t = ink t) (trials u)"
    by (auto simp: list_all_iff)
  moreover from one' have "list_all (\<lambda>t. word t \<noteq> ink t) (trials ?x)"
    by (simp add: list_all_iff)
  ultimately show ?thesis
    using high_rate_run h one n(1) b three unstuck_cycle pb four pe(1,2) five by blast
qed

text \<open>
  The claim as it is stated fails at a trial count that is not a number and at a rate of
  7.5: the run starts in both cases, and the settings hold the values unchanged. Without a
  count the run is in the test phase with the summary on the screen; with three trials
  at the rate 7.5 the three trials are generated.
\<close>

theorem invalid_settings_counterexample:
  "nTrials_value bad_form = None \<and> inconRate_value bad_form = Some (15 / 2)
   \<and> map_option phase (startTest cycle_rnd bad_form init_state) = Some Test
   \<and> map_option screen (startTest cycle_rnd bad_form init_state) = Some ScreenDone
   \<and> map_option settings (startTest cycle_rnd bad_form init_state)
       = Some \<lparr>nTrials = None, inconRate = Some (15 / 2), beep = False, practice = False,
                voice = True\<rparr>
   \<and> map_option phase
        (startTest cycle_rnd (sample_form\<lparr>inconRate_value := Some (15 / 2)\<rparr>) init_state)
       = Some Test
   \<and> map_option trials
        (startTest cycle_rnd (sample_form\<lparr>inconRate_value := Some (15 / 2)\<rparr>) init_state)
       = Some incongruent_trials
   \<and> map_option settings
        (startTest cycle_rnd (sample_form\<lparr>inconRate_value := Some (15 / 2)\<rparr>) init_state)
       = Some \<lparr>nTrials = Some 3, inconRate = Some (15 / 2), beep = False, practice = False,
                voice = True\<rparr>"
proof -
  let ?S = "started bad_form [] 0 init_state"
  have b: "\<not> practiceToggle_checked bad_form" "nTrials_value bad_form = None"
    "inconRate_value bad_form = Some (15 / 2)" "draws init_state = 0"
    by (simp_all add: bad_form_def sample_form_def init_state_def)
  have "startTest cycle_rnd bad_form init_state = presentTrial cycle_rnd ?S"
    by (simp add: startTest_eq b generateTrials_no_count)
  also have "\<dots> = Some (finish ?S)"
    using b(1) by (intro presentTrial_finish) (simp_all add: started_fields)
  finally have e: "startTest cycle_rnd bad_form init_state = Some (finish ?S)" .
  have f: "phase (finish ?S) = Test" "screen (finish ?S) = ScreenDone"
    "settings (finish ?S) = \<lparr>nTrials = None, inconRate = Some (15 / 2), beep = False,
       practice = False, voice = True\<rparr>"
    by (simp_all add: finish_eq started_def bad_form_def sample_form_def)
  let ?h = "sample_form\<lparr>inconRate_value := Some (15 / 2)\<rparr>"
  let ?x = "schedule_stimulus cycle_rnd (incongruent_trials ! 0)
              (started ?h incongruent_trials 12 init_state)"
  have x: "phase ?x = Test" "trials ?x = incongruent_trials"
    "settings ?x = \<lparr>nTrials = Some 3, inconRate = Some (15 / 2), beep = False,
       practice = False, voice = True\<rparr>"
    by (simp_all add: schedule_stimulus_eq started_def sample_form_def)
  from b e f high_rate_run x show ?thesis by simp
qed

end
